(* ===== verification/Cxx_Prelude.thy ===== *)
theory Cxx_Prelude
  imports Main "HOL-Library.Word"
begin

unbundle bit_operations_syntax

text \<open>
  The part of C++ that every component of the library relies on: results of
  operations that may throw or leave the defined behaviour of the language,
  fixed-width integer conversions, byte ranges of a memory block, and the byte
  order of integers in memory.
\<close>

named_theorems res_simps \<open>rewrite rules for results\<close>

section \<open>Results\<close>

text \<open>
  An operation returns \<open>Inr v\<close>, throws one of the exceptions the sources
  name, or reaches undefined behaviour: an access outside a memory block, an index
  outside a vector, a division by zero, a call through a dangling pointer. \<open>Blocked\<close> is an operation that
  waits for ever for another thread.
\<close>

datatype cxx_error = OutOfRange | RuntimeError | LengthError | UB | Blocked

type_synonym 'a res = "cxx_error + 'a"

definition rbind :: "'a res \<Rightarrow> ('a \<Rightarrow> 'b res) \<Rightarrow> 'b res" where
  "rbind m f = (case m of Inl e \<Rightarrow> Inl e | Inr x \<Rightarrow> f x)"

lemma rbind_simps [simp]:
  "rbind (Inr x) f = f x"
  "rbind (Inl e) f = Inl e"
  by (simp_all add: rbind_def)

lemma rbind_Inr_iff [res_simps]:
  "rbind m f = Inr y \<longleftrightarrow> (\<exists>x. m = Inr x \<and> f x = Inr y)"
  by (cases m) auto

lemma rbind_cong [fundef_cong]:
  "m = m' \<Longrightarrow> (\<And>x. m' = Inr x \<Longrightarrow> f x = g x) \<Longrightarrow> rbind m f = rbind m' g"
  by (cases m') auto

lemma rbind_assoc: "rbind (rbind m f) g = rbind m (\<lambda>x. rbind (f x) g)"
  by (cases m) auto

text \<open>Operations that may fail to return have the type \<open>'a res option\<close>, \<open>None\<close> being a call that does not end.\<close>

definition robind :: "'a res option \<Rightarrow> ('a \<Rightarrow> 'b res option) \<Rightarrow> 'b res option" where
  "robind m f = (case m of None \<Rightarrow> None | Some (Inl e) \<Rightarrow> Some (Inl e) | Some (Inr x) \<Rightarrow> f x)"

lemma robind_simps [simp]:
  "robind None f = None" "robind (Some (Inl e)) f = Some (Inl e)" "robind (Some (Inr x)) f = f x"
  by (simp_all add: robind_def)

section \<open>Integer conversions\<close>

text \<open>
  Mixed-width arithmetic is written over \<open>int\<close> or \<open>nat\<close> with the conversion
  at each assignment and at each operation made explicit: \<open>i32\<close> to \<open>int\<close>,
  \<open>u32\<close> to \<open>unsigned int\<close>, \<open>u64\<close> to \<open>size_t\<close> and \<open>uint64_t\<close>;
  \<open>usz\<close> is the wrap-around of a sum of two \<open>size_t\<close> values.
\<close>

definition i32 :: "int \<Rightarrow> int" where
  "i32 x = (x + 2147483648) mod 4294967296 - 2147483648"

definition u32 :: "int \<Rightarrow> int" where
  "u32 x = x mod 4294967296"

definition u64 :: "int \<Rightarrow> int" where
  "u64 x = x mod 18446744073709551616"

definition usz :: "nat \<Rightarrow> nat" where
  "usz n = n mod 18446744073709551616"

lemma i32_id [simp]: "- 2147483648 \<le> x \<Longrightarrow> x < 2147483648 \<Longrightarrow> i32 x = x"
  by (simp add: i32_def)

lemma u32_id [simp]: "0 \<le> x \<Longrightarrow> x < 4294967296 \<Longrightarrow> u32 x = x"
  by (simp add: u32_def)

lemma u64_id [simp]: "0 \<le> x \<Longrightarrow> x < 18446744073709551616 \<Longrightarrow> u64 x = x"
  by (simp add: u64_def)

lemma usz_id [simp]: "n < 18446744073709551616 \<Longrightarrow> usz n = n"
  by (simp add: usz_def)

declare nat_int_add [simp]

lemma i32_range: "- 2147483648 \<le> i32 x" "i32 x < 2147483648"
proof -
  have "0 \<le> (x + 2147483648) mod 4294967296" "(x + 2147483648) mod 4294967296 < 4294967296"
    by simp_all
  then show "- 2147483648 \<le> i32 x" "i32 x < 2147483648"
    by (simp_all add: i32_def)
qed

lemma u32_range: "0 \<le> u32 x" "u32 x < 4294967296"
  by (simp_all add: u32_def)

lemma u64_range: "0 \<le> u64 x" "u64 x < 18446744073709551616"
  by (simp_all add: u64_def)

lemma unat_32_bound: "unat (w :: 32 word) < 4294967296"
proof -
  have "unat w < 2 ^ LENGTH(32)" by (rule unsigned_less)
  then show ?thesis by simp
qed

lemma unat_of_nat_32 [simp]: "n < 4294967296 \<Longrightarrow> unat (of_nat n :: 32 word) = n"
  by (simp add: unat_of_nat take_bit_nat_eq_self)

section \<open>Memory blocks\<close>

type_synonym byte = "8 word"
type_synonym bytes = "byte list"

text \<open>
  \<open>mem_get off n m\<close> reads \<open>n\<close> cells of the block \<open>m\<close> from \<open>off\<close>,
  \<open>mem_put off xs m\<close> overwrites the cells from \<open>off\<close> with \<open>xs\<close>; both
  are undefined behaviour when the range leaves the block. \<open>vec_resize\<close> is
  \<open>std::vector::resize\<close> and \<open>std::string::resize\<close> with zero fill.
\<close>

definition mem_get :: "nat \<Rightarrow> nat \<Rightarrow> 'a list \<Rightarrow> 'a list res" where
  "mem_get off n m = (if off + n \<le> length m then Inr (take n (drop off m)) else Inl UB)"

definition mem_put :: "nat \<Rightarrow> 'a list \<Rightarrow> 'a list \<Rightarrow> 'a list res" where
  "mem_put off xs m = (if off + length xs \<le> length m
     then Inr (take off m @ xs @ drop (off + length xs) m) else Inl UB)"

definition vec_resize :: "'a \<Rightarrow> nat \<Rightarrow> 'a list \<Rightarrow> 'a list" where
  "vec_resize z n xs = take n xs @ replicate (n - length xs) z"

lemma mem_get_ok [simp]: "off + n \<le> length m \<Longrightarrow> mem_get off n m = Inr (take n (drop off m))"
  by (simp add: mem_get_def)

lemma mem_put_ok [simp]:
  "off + length xs \<le> length m \<Longrightarrow>
   mem_put off xs m = Inr (take off m @ xs @ drop (off + length xs) m)"
  by (simp add: mem_put_def)

lemma mem_get_Inr_iff [res_simps]:
  "mem_get off n m = Inr xs \<longleftrightarrow> off + n \<le> length m \<and> xs = take n (drop off m)"
  by (auto simp: mem_get_def)

lemma mem_put_Inr_iff [res_simps]:
  "mem_put off xs m = Inr m' \<longleftrightarrow>
   off + length xs \<le> length m \<and> m' = take off m @ xs @ drop (off + length xs) m"
  by (auto simp: mem_put_def)

lemma length_vec_resize [simp]: "length (vec_resize z n xs) = n"
  by (simp add: vec_resize_def)

lemma vec_resize_grow [simp]: "length xs \<le> n \<Longrightarrow> vec_resize z n xs = xs @ replicate (n - length xs) z"
  by (simp add: vec_resize_def)

text \<open>
  The same accesses at a pointer computed with signed arithmetic: an offset before the
  start of the block is undefined behaviour as well.
\<close>

definition ptr_get :: "int \<Rightarrow> nat \<Rightarrow> 'a list \<Rightarrow> 'a list res" where
  "ptr_get off n m = (if off < 0 then Inl UB else mem_get (nat off) n m)"

definition ptr_put :: "int \<Rightarrow> 'a list \<Rightarrow> 'a list \<Rightarrow> 'a list res" where
  "ptr_put off xs m = (if off < 0 then Inl UB else mem_put (nat off) xs m)"

lemma ptr_get_ok [simp]:
  "0 \<le> off \<Longrightarrow> off + int n \<le> int (length m) \<Longrightarrow> ptr_get off n m = Inr (take n (drop (nat off) m))"
  by (simp add: ptr_get_def)

lemma ptr_put_ok [simp]:
  "0 \<le> off \<Longrightarrow> off + int (length xs) \<le> int (length m) \<Longrightarrow>
   ptr_put off xs m = Inr (take (nat off) m @ xs @ drop (nat off + length xs) m)"
  by (simp add: ptr_put_def)

section \<open>System calls\<close>

text \<open>
  The kernel's answer to a call, as the sources observe it: \<open>RdError e\<close> is a
  negative count with \<open>errno = e\<close>; \<open>RdBytes bs e\<close> is a count of
  \<open>length bs\<close> bytes (0 at the end of the stream, when the code still copies the value
  \<open>e\<close> that \<open>errno\<close> happens to have). \<open>WrError e\<close> is a failed write, and
  \<open>WrBytes n\<close> a socket that takes at most \<open>n\<close> of the bytes offered.
\<close>

datatype rd_result = RdError int | RdBytes bytes int
datatype wr_result = WrError int | WrBytes nat

definition EINTR :: int where "EINTR = 4"
definition EAGAIN :: int where "EAGAIN = 11"
definition EWOULDBLOCK :: int where "EWOULDBLOCK = 11"

definition transient :: "int \<Rightarrow> bool" where
  "transient e \<longleftrightarrow> e = EAGAIN \<or> e = EWOULDBLOCK \<or> e = EINTR"

section \<open>Byte order\<close>

text \<open>
  \<open>be_bytes n w\<close> is the big-endian representation of the low \<open>8 * n\<close> bits of
  \<open>w\<close>; \<open>of_be\<close> reads one back. The host's byte order is the parameter
  \<open>big\<close> of \<open>store_int\<close> and \<open>load_int\<close>, which say what an integer looks like
  in memory; \<open>bswap\<close> is \<open>__builtin_bswap\<close>.
\<close>

primrec be_bytes :: "nat \<Rightarrow> 'a::len word \<Rightarrow> bytes" where
  "be_bytes 0 w = []"
| "be_bytes (Suc n) w = ucast (drop_bit (8 * n) w) # be_bytes n w"

definition of_be :: "bytes \<Rightarrow> 'a::len word" where
  "of_be bs = foldl (\<lambda>acc b. push_bit 8 acc OR ucast b) 0 bs"

definition int_size :: "'a::len word \<Rightarrow> nat" where
  "int_size w = LENGTH('a) div 8"

definition store_int :: "bool \<Rightarrow> 'a::len word \<Rightarrow> bytes" where
  "store_int big w = (if big then be_bytes (int_size w) w else rev (be_bytes (int_size w) w))"

definition load_int :: "bool \<Rightarrow> bytes \<Rightarrow> 'a::len word" where
  "load_int big bs = (if big then of_be bs else of_be (rev bs))"

definition bswap :: "'a::len word \<Rightarrow> 'a word" where
  "bswap w = of_be (rev (be_bytes (int_size w) w))"

lemma length_be_bytes [simp]: "length (be_bytes n w) = n"
  by (induction n) auto

lemma be_bytes_numeral:
  "be_bytes (numeral k) w = ucast (drop_bit (8 * pred_numeral k) w) # be_bytes (pred_numeral k) w"
  by (simp add: numeral_eq_Suc)

lemma length_store_int [simp]: "length (store_int big w) = int_size w"
  by (simp add: store_int_def)

lemma foldl_be_bytes:
  fixes w acc :: "'a::len word"
  shows "foldl (\<lambda>acc b. push_bit 8 acc OR ucast b) acc (be_bytes n w)
    = push_bit (8 * n) acc OR take_bit (8 * n) w"
proof (induction n arbitrary: acc)
  case 0
  then show ?case by simp
next
  case (Suc n)
  show ?case
    by (rule bit_word_eqI)
       (auto simp: Suc.IH bit_simps not_less less_diff_conv2 algebra_simps)
qed

lemma of_be_be_bytes: "LENGTH('a) \<le> 8 * n \<Longrightarrow> of_be (be_bytes n w) = (w :: 'a::len word)"
  by (simp add: of_be_def foldl_be_bytes take_bit_word_eq_self)


lemma of_be_Nil [simp]: "of_be [] = 0"
  by (simp add: of_be_def)

lemma of_be_snoc: "of_be (bs @ [b]) = push_bit 8 (of_be bs) OR ucast b"
  by (simp add: of_be_def)

lemma be_bytes_snoc: "be_bytes (Suc n) w = be_bytes n (drop_bit 8 w) @ [ucast w]"
  by (induction n) (auto simp: algebra_simps)

lemma bit_of_be_bound: "bit (of_be bs :: 'a::len word) n \<Longrightarrow> n < 8 * length bs"
proof (induction bs arbitrary: n rule: rev_induct)
  case Nil
  then show ?case by simp
next
  case (snoc b bs)
  then consider "8 \<le> n" "bit (of_be bs :: 'a word) (n - 8)" | "bit b n"
    by (auto simp: of_be_snoc bit_simps)
  then show ?case
  proof cases
    case 1
    with snoc.IH [of "n - 8"] show ?thesis by simp
  next
    case 2
    then have "n < 8" using bit_imp_le_length [of b n] by simp
    then show ?thesis by simp
  qed
qed

lemma drop_bit_of_be_snoc:
  assumes "8 * length (bs @ [b]) \<le> LENGTH('a)"
  shows "drop_bit 8 (of_be (bs @ [b]) :: 'a::len word) = of_be bs"
proof (rule bit_word_eqI)
  fix n
  assume "n < LENGTH('a)"
  have nb: "\<not> bit b (n + 8)" using bit_imp_le_length [of b "n + 8"] by auto
  have "bit (of_be bs :: 'a word) n \<Longrightarrow> n + 8 < LENGTH('a)"
    using bit_of_be_bound [of bs n, where 'a = 'a] assms by simp
  with nb show "bit (drop_bit 8 (of_be (bs @ [b]) :: 'a word)) n = bit (of_be bs :: 'a word) n"
    by (auto simp: of_be_snoc bit_simps add.commute)
qed

lemma ucast_of_be_snoc:
  assumes "8 * length (bs @ [b]) \<le> LENGTH('a)"
  shows "ucast (of_be (bs @ [b]) :: 'a::len word) = b"
proof (rule bit_word_eqI)
  fix n
  assume "n < LENGTH(8)"
  with assms show "bit (ucast (of_be (bs @ [b]) :: 'a word) :: byte) n = bit b n"
    by (auto simp: of_be_snoc bit_simps)
qed

lemma be_bytes_of_be:
  "8 * length bs \<le> LENGTH('a) \<Longrightarrow> be_bytes (length bs) (of_be bs :: 'a::len word) = bs"
proof (induction bs rule: rev_induct)
  case Nil
  then show ?case by simp
next
  case (snoc b bs)
  then show ?case
    using drop_bit_of_be_snoc [of bs b, where 'a = 'a] ucast_of_be_snoc [of bs b, where 'a = 'a]
    by (simp del: be_bytes.simps add: be_bytes_snoc)
qed

lemma load_store_int: "8 * int_size w = LENGTH('a) \<Longrightarrow> load_int big (store_int big w) = (w :: 'a::len word)"
  by (simp add: load_int_def store_int_def of_be_be_bytes)

lemma int_size_simps [simp]:
  "int_size (w8 :: 8 word) = 1"
  "int_size (w16 :: 16 word) = 2"
  "int_size (w32 :: 32 word) = 4"
  "int_size (w64 :: 64 word) = 8"
  by (simp_all add: int_size_def)

text \<open>
  \<open>hton\<close> is \<open>htons\<close>, \<open>htonl\<close> and the swap the codec writes for 64 bits;
  its inverse is the same function. Whatever the host's byte order, an integer that went
  through \<open>hton\<close> lies in memory in big-endian order.
\<close>

definition hton :: "bool \<Rightarrow> 'a::len word \<Rightarrow> 'a word" where
  "hton big w = (if big then w else bswap w)"

lemma store_int_hton:
  "8 * int_size w = LENGTH('a) \<Longrightarrow> store_int big (hton big w) = be_bytes (int_size w) (w :: 'a::len word)"
proof (cases big)
  case False
  assume *: "8 * int_size w = LENGTH('a)"
  have "be_bytes (length (rev (be_bytes (int_size w) w))) (bswap w) = rev (be_bytes (int_size w) w)"
    unfolding bswap_def using * by (intro be_bytes_of_be) simp
  then have "be_bytes (int_size w) (bswap w) = rev (be_bytes (int_size w) w)"
    by simp
  with False show ?thesis by (simp add: store_int_def hton_def int_size_def)
qed (simp add: store_int_def hton_def)

lemma hton_load_int:
  assumes "8 * length bs = LENGTH('a)"
  shows "hton big (load_int big bs) = (of_be bs :: 'a::len word)"
proof (cases big)
  case False
  have sz: "int_size (of_be (rev bs) :: 'a word) = length (rev bs)"
    using assms by (simp add: int_size_def flip: assms)
  have "be_bytes (length (rev bs)) (of_be (rev bs) :: 'a word) = rev bs"
    using assms by (intro be_bytes_of_be) simp
  with False sz show ?thesis by (simp add: hton_def load_int_def bswap_def)
qed (simp add: hton_def load_int_def)

lemma hton_hton: "8 * int_size w = LENGTH('a) \<Longrightarrow> hton big (hton big w) = (w :: 'a::len word)"
proof -
  assume *: "8 * int_size w = LENGTH('a)"
  have "be_bytes (length (rev (be_bytes (int_size w) w))) (bswap w) = rev (be_bytes (int_size w) w)"
    unfolding bswap_def using * by (intro be_bytes_of_be) simp
  then have "bswap (bswap w) = w" using * by (simp add: bswap_def [of "bswap w"] int_size_def of_be_be_bytes)
  then show ?thesis by (simp add: hton_def)
qed

section \<open>Decimal text\<close>

definition digit :: "nat \<Rightarrow> byte" where
  "digit d = of_nat (48 + d)"

fun digits :: "nat \<Rightarrow> bytes" where
  "digits n = (if n < 10 then [digit n] else digits (n div 10) @ [digit (n mod 10)])"

declare digits.simps [simp del]

lemma digits_small: "n < 10 \<Longrightarrow> digits n = [digit n]"
  by (simp add: digits.simps)

lemma digits_snoc: "0 < n \<Longrightarrow> d < 10 \<Longrightarrow> digits (n * 10 + d) = digits n @ [digit d]"
  by (subst digits.simps) simp

lemma unat_digit: "d < 10 \<Longrightarrow> unat (digit d) = 48 + d"
proof -
  assume "d < 10"
  then have "unat (of_nat (48 + d) :: byte) = 48 + d" by (simp only: unsigned_of_nat take_bit_eq_mod) simp
  then show ?thesis by (simp only: digit_def)
qed

lemma digit_unat: "48 \<le> unat ch \<Longrightarrow> digit (unat ch - 48) = ch"
  by (simp only: digit_def le_add_diff_inverse of_nat_unat ucast_id)

end
