(* ===== verification/Net_Buffer.thy ===== *)
theory Net_Buffer
  imports Cxx_Prelude
begin

text \<open>
  \<open>adachi::io::Buffer\<close> (\<^verbatim>\<open>include/buffer.h\<close>, \<^verbatim>\<open>src/buffer.cpp\<close>): the
  byte buffer each connection reads into and writes from. The vector is the block
  \<open>buf_data\<close>, the two cursors are the C++ \<open>int\<close> members; every memory access is
  checked against the block.
\<close>

section \<open>State and operations\<close>

record Buffer =
  buf_data :: bytes
  readptr :: int
  writeptr :: int

definition Buffer_new :: "int \<Rightarrow> Buffer res" where
  "Buffer_new siz = (if siz < 0 then Inl LengthError
     else Inr \<lparr>buf_data = vec_resize 0 (nat siz) [], readptr = 0, writeptr = 0\<rparr>)"

definition Buffer_Empty :: "Buffer \<Rightarrow> bool" where
  "Buffer_Empty b \<longleftrightarrow> readptr b = writeptr b"

definition Buffer_Capacity :: "Buffer \<Rightarrow> nat" where
  "Buffer_Capacity b = length (buf_data b)"

definition Buffer_Size :: "Buffer \<Rightarrow> nat" where
  "Buffer_Size b = nat (u64 (writeptr b - readptr b))"

definition MovePtr :: "Buffer \<Rightarrow> Buffer res" where
  "MovePtr b = (if readptr b \<noteq> 0
     then rbind (ptr_get (readptr b) (nat (u64 (writeptr b - readptr b))) (buf_data b)) (\<lambda>xs.
          rbind (mem_put 0 xs (buf_data b)) (\<lambda>d.
          Inr (b\<lparr>buf_data := d, writeptr := i32 (writeptr b - readptr b), readptr := 0\<rparr>)))
     else Inr b)"

definition Expand :: "Buffer \<Rightarrow> int \<Rightarrow> Buffer res" where
  "Expand b siz = rbind (MovePtr b) (\<lambda>b.
     Inr (if siz > int (length (buf_data b))
          then b\<lparr>buf_data := vec_resize 0 (nat siz) (buf_data b)\<rparr> else b))"

definition ReadFd :: "Buffer \<Rightarrow> rd_result \<Rightarrow> (int \<times> int option \<times> Buffer) res" where
  "ReadFd b rv = (case rv of
     RdError e \<Rightarrow> Inr (-1, Some e, b)
   | RdBytes bs e \<Rightarrow>
      if bs = [] then Inr (0, Some e, b)
      else
        let n = length bs;
            iov_len = nat (u64 (int (length (buf_data b)) - writeptr b));
            extrabuf = drop iov_len bs;
            need = n - iov_len
        in rbind (ptr_put (writeptr b) (take iov_len bs) (buf_data b)) (\<lambda>d.
           let b = b\<lparr>buf_data := d\<rparr> in
           if n \<ge> iov_len then
             rbind (MovePtr (b\<lparr>writeptr := i32 (int (length (buf_data b)))\<rparr>)) (\<lambda>b.
             rbind (if u64 (int need + writeptr b) > int (length (buf_data b))
                    then Expand b (u32 (int need + writeptr b)) else Inr b) (\<lambda>b.
             if need > 65536 then Inl UB
             else rbind (ptr_put (writeptr b) extrabuf (buf_data b)) (\<lambda>d.
               Inr (i32 (int n), None, b\<lparr>buf_data := d, writeptr := i32 (writeptr b + int need)\<rparr>))))
           else Inr (i32 (int n), None, b\<lparr>writeptr := i32 (writeptr b + int n)\<rparr>)))"

definition WriteFd :: "Buffer \<Rightarrow> wr_result \<Rightarrow> (int \<times> int option \<times> bytes \<times> Buffer) res" where
  "WriteFd b wr =
     rbind (ptr_get (readptr b) (nat (u64 (writeptr b - readptr b))) (buf_data b)) (\<lambda>pending.
     case wr of
       WrError e \<Rightarrow> Inr (-1, Some e, [], b)
     | WrBytes k \<Rightarrow>
         let sent = take k pending; n = int (length sent);
             r = i32 (readptr b + n)
         in Inr (i32 n, None, sent,
              if r = writeptr b then b\<lparr>readptr := 0, writeptr := 0\<rparr> else b\<lparr>readptr := r\<rparr>))"

definition WriteBuffer :: "Buffer \<Rightarrow> bytes \<Rightarrow> Buffer res" where
  "WriteBuffer b message =
     rbind (if u64 (writeptr b + int (length message)) > int (length (buf_data b))
            then rbind (MovePtr b) (\<lambda>b.
              Inr (if u64 (writeptr b + int (length message)) > int (length (buf_data b))
                   then b\<lparr>buf_data := vec_resize 0 (nat (u64 (writeptr b + int (length message)))) (buf_data b)\<rparr>
                   else b))
            else Inr b) (\<lambda>b.
     rbind (ptr_put (writeptr b) message (buf_data b)) (\<lambda>d.
     Inr (b\<lparr>buf_data := d, writeptr := i32 (writeptr b + int (length message))\<rparr>)))"

text \<open>The overload on a pointer and an \<open>unsigned int\<close> adds in 32 bits.\<close>

definition WriteBuffer_ptr :: "Buffer \<Rightarrow> bytes \<Rightarrow> int \<Rightarrow> Buffer res" where
  "WriteBuffer_ptr b message len =
     rbind (if u32 (writeptr b + len) > int (length (buf_data b))
            then rbind (MovePtr b) (\<lambda>b.
              Inr (if u32 (writeptr b + len) > int (length (buf_data b))
                   then b\<lparr>buf_data := vec_resize 0 (nat (u32 (writeptr b + len))) (buf_data b)\<rparr>
                   else b))
            else Inr b) (\<lambda>b.
     rbind (mem_get 0 (nat len) message) (\<lambda>xs.
     rbind (ptr_put (writeptr b) xs (buf_data b)) (\<lambda>d.
     Inr (b\<lparr>buf_data := d, writeptr := i32 (u32 (writeptr b + len))\<rparr>))))"

definition ReadBuffer_all :: "Buffer \<Rightarrow> (bytes \<times> Buffer) res" where
  "ReadBuffer_all b =
     rbind (ptr_get (readptr b) (nat (u64 (writeptr b - readptr b))) (buf_data b)) (\<lambda>message.
     Inr (message, b\<lparr>readptr := 0, writeptr := 0\<rparr>))"

definition ReadBuffer :: "Buffer \<Rightarrow> nat \<Rightarrow> (bytes \<times> Buffer) res" where
  "ReadBuffer b len =
     (if Buffer_Size b < len then Inl OutOfRange
      else rbind (ptr_get (readptr b) len (buf_data b)) (\<lambda>message.
        Inr (message, if Buffer_Size b = len then b\<lparr>readptr := 0, writeptr := 0\<rparr>
                      else b\<lparr>readptr := i32 (readptr b + int len)\<rparr>)))"

definition PeekUnsignedInt :: "bool \<Rightarrow> Buffer \<Rightarrow> 32 word res" where
  "PeekUnsignedInt big b =
     (if Buffer_Size b < 4 then Inl OutOfRange
      else rbind (ptr_get (readptr b) 4 (buf_data b)) (\<lambda>v. Inr (load_int big v)))"

text \<open>\<open>CReadData\<close> is a pointer into the block: the memory that can be read from it.\<close>

definition CReadData :: "Buffer \<Rightarrow> bytes" where
  "CReadData b = drop (nat (readptr b)) (buf_data b)"

section \<open>Invariant and abstraction\<close>

text \<open>
  The cursors are ordered inside the block, and the block is shorter than \<open>2^31\<close>
  bytes so that they fit an \<open>int\<close>. The buffer stands for the bytes between them.
\<close>

definition buf_inv :: "Buffer \<Rightarrow> bool" where
  "buf_inv b \<longleftrightarrow> 0 \<le> readptr b \<and> readptr b \<le> writeptr b \<and>
     writeptr b \<le> int (length (buf_data b)) \<and> length (buf_data b) < 2147483648"

definition buf_content :: "Buffer \<Rightarrow> bytes" where
  "buf_content b = take (nat (writeptr b - readptr b)) (drop (nat (readptr b)) (buf_data b))"

text \<open>
  The view of a well-formed buffer that the proofs work with: consumed bytes, content,
  free space.
\<close>

definition mk_buf :: "bytes \<Rightarrow> bytes \<Rightarrow> bytes \<Rightarrow> Buffer" where
  "mk_buf pre c post = \<lparr>buf_data = pre @ c @ post, readptr = int (length pre),
     writeptr = int (length pre) + int (length c)\<rparr>"

lemma mk_buf_simps [simp]:
  "buf_data (mk_buf pre c post) = pre @ c @ post"
  "readptr (mk_buf pre c post) = int (length pre)"
  "writeptr (mk_buf pre c post) = int (length pre) + int (length c)"
  "buf_content (mk_buf pre c post) = c"
  "buf_inv (mk_buf pre c post) \<longleftrightarrow> length pre + length c + length post < 2147483648"
  by (simp_all add: mk_buf_def buf_content_def buf_inv_def add.assoc)

lemma mk_bufI:
  "buf_data b = pre @ c @ post \<Longrightarrow> readptr b = int (length pre) \<Longrightarrow>
   writeptr b = int (length pre) + int (length c) \<Longrightarrow> b = mk_buf pre c post"
  by (simp add: mk_buf_def)

lemma buf_view:
  assumes "buf_inv b"
  obtains pre c post where "b = mk_buf pre c post" "length pre + length c + length post < 2147483648"
proof -
  define pre c post where "pre = take (nat (readptr b)) (buf_data b)"
    and "c = buf_content b" and "post = drop (nat (writeptr b)) (buf_data b)"
  have nat_w: "nat (writeptr b) = nat (writeptr b - readptr b) + nat (readptr b)"
    using assms by (simp add: buf_inv_def flip: nat_add_distrib)
  have data: "buf_data b = pre @ c @ post"
    unfolding pre_def c_def post_def buf_content_def nat_w
    by (metis append_take_drop_id drop_drop)
  moreover have "readptr b = int (length pre)" "writeptr b = int (length pre) + int (length c)"
    using assms by (auto simp: pre_def c_def buf_content_def buf_inv_def min_def)
  ultimately have "b = mk_buf pre c post"
    by (rule mk_bufI)
  with assms show ?thesis by (intro that) auto
qed

lemma Buffer_Size_content: "buf_inv b \<Longrightarrow> Buffer_Size b = length (buf_content b)"
  by (erule buf_view) (simp add: Buffer_Size_def)

lemma Buffer_Empty_content: "buf_inv b \<Longrightarrow> Buffer_Empty b \<longleftrightarrow> buf_content b = []"
  by (erule buf_view) (simp add: Buffer_Empty_def)

lemma CReadData_content:
  "buf_inv b \<Longrightarrow> n \<le> length (buf_content b) \<Longrightarrow> take n (CReadData b) = take n (buf_content b)"
  by (erule buf_view) (simp add: CReadData_def)

lemma length_CReadData: "buf_inv b \<Longrightarrow> length (buf_content b) \<le> length (CReadData b)"
  by (erule buf_view) (simp add: CReadData_def)

lemma buf_content_bound: "buf_inv b \<Longrightarrow> length (buf_content b) < 2147483648"
  by (erule buf_view) simp

lemma Buffer_new_ok:
  "0 \<le> n \<Longrightarrow> n < 2147483648 \<Longrightarrow>
   \<exists>b. Buffer_new n = Inr b \<and> buf_inv b \<and> buf_content b = [] \<and> Buffer_Capacity b = nat n"
  by (simp add: Buffer_new_def buf_inv_def buf_content_def Buffer_Capacity_def)

lemma MovePtr_mk_buf:
  assumes "length pre + length c + length post < 2147483648"
  shows "\<exists>post'. MovePtr (mk_buf pre c post) = Inr (mk_buf [] c post') \<and>
    length post' = length pre + length post"
proof (cases "pre = []")
  case True
  then show ?thesis by (intro exI [of _ post]) (simp add: MovePtr_def)
next
  case False
  have "MovePtr (mk_buf pre c post) = Inr (mk_buf [] c (drop (length c) (pre @ c @ post)))"
    using assms False by (simp add: MovePtr_def mk_buf_def)
  then show ?thesis by auto
qed

lemma MovePtr_ok:
  "buf_inv b \<Longrightarrow> \<exists>b'. MovePtr b = Inr b' \<and> buf_inv b' \<and> buf_content b' = buf_content b"
  by (erule buf_view) (use MovePtr_mk_buf in force)

text \<open>The memory effect of appending to the content and of growing the block.\<close>

lemma ptr_put_mk_buf [simp]:
  "length m \<le> length q \<Longrightarrow>
   ptr_put (int (length p) + int (length c)) m (p @ c @ q) = Inr (p @ c @ m @ drop (length m) q)"
  by simp

lemma mk_buf_upd_append [simp]:
  "mk_buf p c q\<lparr>buf_data := p @ c @ m @ r,
     writeptr := int (length p) + int (length c) + int (length m)\<rparr> = mk_buf p (c @ m) r"
  by (simp add: mk_buf_def)

lemma mk_buf_upd_grow [simp]: "mk_buf p c q\<lparr>buf_data := p @ c @ q @ z\<rparr> = mk_buf p c (q @ z)"
  by (simp add: mk_buf_def)

lemma mk_buf_upd_reset [simp]: "mk_buf p c q\<lparr>readptr := 0, writeptr := 0\<rparr> = mk_buf [] [] (p @ c @ q)"
  by (simp add: mk_buf_def)

lemma mk_buf_upd_consume [simp]:
  "n \<le> length c \<Longrightarrow>
   mk_buf p c q\<lparr>readptr := int (length p) + int n\<rparr> = mk_buf (p @ take n c) (drop n c) q"
  by (simp add: mk_buf_def min_def)

lemma WriteBuffer_ok:
  assumes "buf_inv b" "length (buf_content b) + length msg < 2147483648"
  shows "\<exists>b'. WriteBuffer b msg = Inr b' \<and> buf_inv b' \<and> buf_content b' = buf_content b @ msg"
proof -
  from \<open>buf_inv b\<close> obtain pre c post where b: "b = mk_buf pre c post"
    "length pre + length c + length post < 2147483648" by (rule buf_view)
  show ?thesis
  proof (cases "length msg \<le> length post")
    case True
    then have "WriteBuffer b msg = Inr (mk_buf pre (c @ msg) (drop (length msg) post))"
      using b assms by (simp add: WriteBuffer_def)
    with True b show ?thesis by auto
  next
    case False
    obtain post' where mv: "MovePtr b = Inr (mk_buf [] c post')" "length post' = length pre + length post"
      using MovePtr_mk_buf b by blast
    define q where "q = post' @ replicate (length msg - length post') 0"
    have "WriteBuffer b msg = Inr (mk_buf [] (c @ msg) (drop (length msg) q))"
      using False b assms mv ptr_put_mk_buf [of msg q "[]" c] mk_buf_upd_append [of "[]" c q]
        mk_buf_upd_grow [of "[]" c post' "replicate (length msg - length post') 0"]
      by (auto simp: WriteBuffer_def q_def)
    moreover have "length c + length msg + (length q - length msg) < 2147483648"
      using assms b mv by (simp add: q_def)
    ultimately show ?thesis using b by auto
  qed
qed

lemma WriteBuffer_ptr_eq:
  assumes "buf_inv b" "length (buf_content b) + length msg < 2147483648"
  shows "WriteBuffer_ptr b msg (int (length msg)) = WriteBuffer b msg"
proof -
  from \<open>buf_inv b\<close> obtain pre c post where b: "b = mk_buf pre c post"
    "length pre + length c + length post < 2147483648" by (rule buf_view)
  have "length pre + length c + length msg < 4294967296"
    using assms b by simp
  moreover obtain post' where "MovePtr b = Inr (mk_buf [] c post')"
    using MovePtr_mk_buf b by blast
  ultimately show ?thesis
    using b assms by (simp add: WriteBuffer_ptr_def WriteBuffer_def)
qed

lemma ReadBuffer_ok:
  assumes "buf_inv b" "n \<le> length (buf_content b)"
  shows "\<exists>b'. ReadBuffer b n = Inr (take n (buf_content b), b') \<and> buf_inv b' \<and>
    buf_content b' = drop n (buf_content b)"
proof -
  from \<open>buf_inv b\<close> obtain pre c post where b: "b = mk_buf pre c post"
    "length pre + length c + length post < 2147483648" by (rule buf_view)
  with assms show ?thesis
    by (simp add: ReadBuffer_def Buffer_Size_content)
qed

lemma ReadBuffer_out_of_range:
  "buf_inv b \<Longrightarrow> length (buf_content b) < n \<Longrightarrow> ReadBuffer b n = Inl OutOfRange"
  by (simp add: ReadBuffer_def Buffer_Size_content)

lemma ReadBuffer_all_ok:
  "buf_inv b \<Longrightarrow>
   \<exists>b'. ReadBuffer_all b = Inr (buf_content b, b') \<and> buf_inv b' \<and> buf_content b' = []"
  by (erule buf_view) (simp add: ReadBuffer_all_def add.assoc)

lemma PeekUnsignedInt_ok:
  "buf_inv b \<Longrightarrow> 4 \<le> length (buf_content b) \<Longrightarrow>
   PeekUnsignedInt big b = Inr (load_int big (take 4 (buf_content b)))"
  by (erule buf_view) (simp add: PeekUnsignedInt_def Buffer_Size_def)

lemma PeekUnsignedInt_out_of_range:
  "buf_inv b \<Longrightarrow> length (buf_content b) < 4 \<Longrightarrow> PeekUnsignedInt big b = Inl OutOfRange"
  by (simp add: PeekUnsignedInt_def Buffer_Size_content)

lemma WriteFd_ok:
  assumes "buf_inv b"
  shows "\<exists>b'. WriteFd b (WrBytes k) = Inr (int (min k (length (buf_content b))), None, take k (buf_content b), b') \<and>
    buf_inv b' \<and> buf_content b' = drop k (buf_content b)"
proof -
  from \<open>buf_inv b\<close> obtain pre c post where b: "b = mk_buf pre c post"
    "length pre + length c + length post < 2147483648" by (rule buf_view)
  then show ?thesis
    by (cases "k < length c") (simp_all add: WriteFd_def Let_def)
qed

lemma WriteFd_error: "buf_inv b \<Longrightarrow> WriteFd b (WrError e) = Inr (-1, Some e, [], b)"
  by (erule buf_view) (simp add: WriteFd_def)

lemma MovePtr_at_start [simp]: "MovePtr (mk_buf [] c q) = Inr (mk_buf [] c q)"
  by (simp add: MovePtr_def)

lemma Expand_at_start:
  "Expand (mk_buf [] c q) (int n) =
     Inr (mk_buf [] c (q @ replicate (n - (length c + length q)) 0))"
  using mk_buf_upd_grow [of "[]" c q] by (auto simp: Expand_def)

text \<open>
  Spilling over: what \<open>readv\<close> delivered beyond the free space of the block is appended
  after the unread bytes have been moved to the front.
\<close>

lemma ReadFd_spill:
  assumes "length c + length ex < 2147483648" "length c + length q < 2147483648"
  shows "\<exists>q'. rbind (if u64 (int (length ex) + int (length c)) > int (length (c @ q))
        then Expand (mk_buf [] c q) (u32 (int (length ex) + int (length c))) else Inr (mk_buf [] c q))
      (\<lambda>b. rbind (ptr_put (writeptr b) ex (buf_data b)) (\<lambda>d.
         Inr (n :: int, None :: int option, b\<lparr>buf_data := d, writeptr := i32 (writeptr b + int (length ex))\<rparr>)))
    = Inr (n, None, mk_buf [] (c @ ex) q') \<and> length c + length ex + length q' < 2147483648"
proof (cases "length q < length ex")
  case True
  with assms Expand_at_start [of c q "length ex + length c"] show ?thesis
    using ptr_put_mk_buf [of ex "q @ replicate (length ex - length q) 0" "[]" c]
      mk_buf_upd_append [of "[]" c "q @ replicate (length ex - length q) 0" ex "[]"]
    by (intro exI [of _ "[]"]) simp
next
  case False
  with assms show ?thesis
    using ptr_put_mk_buf [of ex q "[]" c] mk_buf_upd_append [of "[]" c q ex "drop (length ex) q"]
    by (intro exI [of _ "drop (length ex) q"]) simp
qed

lemma ReadFd_ok:
  assumes "buf_inv b" "bs \<noteq> []"
    and iov: "length bs \<le> (Buffer_Capacity b - nat (writeptr b)) + 65536"
    and room: "length (buf_content b) + length bs < 2147483648"
  shows "\<exists>b'. ReadFd b (RdBytes bs e) = Inr (int (length bs), None, b') \<and> buf_inv b' \<and>
    buf_content b' = buf_content b @ bs"
proof -
  from \<open>buf_inv b\<close> obtain pre c post where b: "b = mk_buf pre c post"
    and lt: "length pre + length c + length post < 2147483648" by (rule buf_view)
  have bnd: "length bs \<le> length post + 65536" "length c + length bs < 2147483648"
    using iov room b by (simp_all add: Buffer_Capacity_def)
  show ?thesis
  proof (cases "length bs < length post")
    case True
    then have "ReadFd b (RdBytes bs e) = Inr (int (length bs), None, mk_buf pre (c @ bs) (drop (length bs) post))"
      using b lt assms(2) by (simp add: ReadFd_def Let_def)
    with True b lt show ?thesis by auto
  next
    case False
    define x ex where "x = take (length post) bs" and "ex = drop (length post) bs"
    have bs: "bs = x @ ex" "length x = length post"
      using False by (simp_all add: x_def ex_def)
    obtain q where mv: "MovePtr (mk_buf pre (c @ x) []) = Inr (mk_buf [] (c @ x) q)" "length q = length pre"
      using MovePtr_mk_buf [of pre "c @ x" "[]"] bs lt by auto
    have wp: "mk_buf pre c post\<lparr>buf_data := pre @ c @ x,
        writeptr := int (length pre) + (int (length c) + int (length post))\<rparr> = mk_buf pre (c @ x) []"
      using bs by (simp add: mk_buf_def)
    have step: "ReadFd b (RdBytes bs e) =
        rbind (if u64 (int (length ex) + int (length (c @ x))) > int (length ((c @ x) @ q))
          then Expand (mk_buf [] (c @ x) q) (u32 (int (length ex) + int (length (c @ x))))
          else Inr (mk_buf [] (c @ x) q))
        (\<lambda>b. rbind (ptr_put (writeptr b) ex (buf_data b)) (\<lambda>d.
           Inr (int (length bs), None, b\<lparr>buf_data := d, writeptr := i32 (writeptr b + int (length ex))\<rparr>)))"
      using assms(2) b lt bnd bs by (simp add: ReadFd_def Let_def wp mv)
    have "length (c @ x) + length ex < 2147483648" "length (c @ x) + length q < 2147483648"
      using bnd bs mv lt by simp_all
    from ReadFd_spill [OF this, of "int (length bs)", folded step] b bs show ?thesis by auto
  qed
qed

section \<open>The byte queue a connection relies on\<close>

text \<open>
  Connections and message handlers use a buffer as a bounded queue of bytes: they append,
  they take a known number of bytes from the front, and a request for more bytes than there
  are is an exception. \<open>put_all\<close> and \<open>get_all\<close> repeat the two operations.
\<close>

fun put_all :: "('b \<Rightarrow> bytes \<Rightarrow> 'b res) \<Rightarrow> 'b \<Rightarrow> bytes list \<Rightarrow> 'b res" where
  "put_all put b [] = Inr b"
| "put_all put b (m # ms) = rbind (put b m) (\<lambda>b. put_all put b ms)"

fun get_all :: "('b \<Rightarrow> nat \<Rightarrow> (bytes \<times> 'b) res) \<Rightarrow> 'b \<Rightarrow> nat list \<Rightarrow> (bytes list \<times> 'b) res" where
  "get_all get b [] = Inr ([], b)"
| "get_all get b (n # ns) = rbind (get b n) (\<lambda>(m, b).
     rbind (get_all get b ns) (\<lambda>(ms, b). Inr (m # ms, b)))"

text \<open>What a message handler does to its connection: the messages written in order, then the close if there is one.\<close>

definition play ::
  "('c \<Rightarrow> bytes \<Rightarrow> 'c res) \<Rightarrow> ('c \<Rightarrow> 'c res) \<Rightarrow> 'c \<Rightarrow> bytes list \<Rightarrow> bool \<Rightarrow> 'c res" where
  "play Write Close conn out closed =
     rbind (put_all Write conn out) (\<lambda>conn. if closed then Close conn else Inr conn)"

locale byte_queue =
  fixes inv :: "'b \<Rightarrow> bool"
    and content :: "'b \<Rightarrow> bytes"
    and put :: "'b \<Rightarrow> bytes \<Rightarrow> 'b res"
    and get :: "'b \<Rightarrow> nat \<Rightarrow> (bytes \<times> 'b) res"
    and bound :: nat
  assumes put_law: "inv b \<Longrightarrow> length (content b) + length m < bound \<Longrightarrow>
      \<exists>b'. put b m = Inr b' \<and> inv b' \<and> content b' = content b @ m"
    and get_law: "inv b \<Longrightarrow> n \<le> length (content b) \<Longrightarrow>
      \<exists>b'. get b n = Inr (take n (content b), b') \<and> inv b' \<and> content b' = drop n (content b)"
    and get_error: "inv b \<Longrightarrow> length (content b) < n \<Longrightarrow> get b n = Inl OutOfRange"
begin

lemma put_all_content:
  "inv b \<Longrightarrow> length (content b) + length (concat ms) < bound \<Longrightarrow>
   \<exists>b'. put_all put b ms = Inr b' \<and> inv b' \<and> content b' = content b @ concat ms"
proof (induction ms arbitrary: b)
  case Nil
  then show ?case by simp
next
  case (Cons m ms)
  then obtain b' where b': "put b m = Inr b'" "inv b'" "content b' = content b @ m"
    using put_law [of b m] by auto
  with Cons.IH [of b'] Cons.prems show ?case by simp
qed

lemma get_all_content:
  "inv b \<Longrightarrow> content b = concat ms @ rest \<Longrightarrow>
   \<exists>b'. get_all get b (map length ms) = Inr (ms, b') \<and> inv b' \<and> content b' = rest"
proof (induction ms arbitrary: b)
  case Nil
  then show ?case by simp
next
  case (Cons m ms)
  then obtain b' where b': "get b (length m) = Inr (m, b')" "inv b'" "content b' = concat ms @ rest"
    using get_law [of b "length m"] by auto
  with Cons.IH [of b'] show ?case by auto
qed

lemma fifo:
  assumes "inv b" "content b = concat old" "length (concat (old @ ms)) < bound"
  shows "\<exists>b'. rbind (put_all put b ms) (\<lambda>b. get_all get b (map length (old @ ms))) = Inr (old @ ms, b')
    \<and> inv b' \<and> content b' = []"
proof -
  from put_all_content [of b ms] assms obtain b1
    where b1: "put_all put b ms = Inr b1" "inv b1" "content b1 = concat (old @ ms) @ []"
    by auto
  from get_all_content [OF b1(2,3)] b1(1) show ?thesis by simp
qed

end

interpretation nb: byte_queue buf_inv buf_content WriteBuffer ReadBuffer 2147483648
proof
  show "\<exists>b'. WriteBuffer b m = Inr b' \<and> buf_inv b' \<and> buf_content b' = buf_content b @ m"
    if "buf_inv b" "length (buf_content b) + length m < 2147483648" for b m
    using that by (rule WriteBuffer_ok)
  show "\<exists>b'. ReadBuffer b n = Inr (take n (buf_content b), b') \<and> buf_inv b' \<and>
      buf_content b' = drop n (buf_content b)"
    if "buf_inv b" "n \<le> length (buf_content b)" for b n
    using that by (rule ReadBuffer_ok)
  show "ReadBuffer b n = Inl OutOfRange"
    if "buf_inv b" "length (buf_content b) < n" for b n
    using that by (rule ReadBuffer_out_of_range)
qed

section \<open>Properties\<close>

text \<open>
  C10. A buffer is a FIFO queue of bytes: the messages it already holds and the messages
  appended to it, whatever their sizes, come back one by one and unchanged when they are
  read by length, no operation on the way fails, and the buffer is empty afterwards.
\<close>

theorem Buffer_fifo:
  assumes "buf_inv b" "buf_content b = concat old" "length (concat (old @ ms)) < 2147483648"
  shows "\<exists>b'. rbind (put_all WriteBuffer b ms) (\<lambda>b. get_all ReadBuffer b (map length (old @ ms)))
      = Inr (old @ ms, b') \<and> buf_inv b' \<and> buf_content b' = []"
  using assms by (rule nb.fifo)

theorem Buffer_fifo_witness:
  "\<exists>b'. rbind (put_all WriteBuffer (mk_buf [9] [1, 2] [0]) [[3, 4], [5]])
        (\<lambda>b. get_all ReadBuffer b (map length ([[1], [2]] @ [[3, 4], [5 :: byte]])))
      = Inr ([[1], [2]] @ [[3, 4], [5]], b') \<and> buf_inv b' \<and> buf_content b' = []"
  by (rule Buffer_fifo) simp_all

text \<open>
  C20. \<open>ReadFd\<close> appends exactly the bytes the kernel delivered to the unread bytes, also
  when they overflow the block into the stack buffer and the block has to be compacted or
  grown; it stays inside the block and keeps the invariant, as long as \<open>readv\<close> respects its
  two segments and fewer than \<open>2^31\<close> bytes are unread.
\<close>

theorem ReadFd_appends:
  assumes "buf_inv b" "bs \<noteq> []"
    and "length bs \<le> (Buffer_Capacity b - nat (writeptr b)) + 65536"
    and "length (buf_content b) + length bs < 2147483648"
  shows "\<exists>b'. ReadFd b (RdBytes bs e) = Inr (int (length bs), None, b') \<and> buf_inv b' \<and>
    buf_content b' = buf_content b @ bs"
  using assms by (rule ReadFd_ok)

theorem ReadFd_appends_witness:
  "\<exists>b'. ReadFd (mk_buf [9] [1, 2] [0]) (RdBytes [3, 4, 5, 6] 0) = Inr (int (length [3, 4, 5, 6 :: byte]), None, b')
     \<and> buf_inv b' \<and> buf_content b' = buf_content (mk_buf [9] [1, 2] [0]) @ [3, 4, 5, 6]"
  by (rule ReadFd_appends) (simp_all add: Buffer_Capacity_def)

end
