(* ===== verification/KV_Codec.thy ===== *)
theory KV_Codec
  imports Cxx_Prelude
begin

text \<open>
  The wire protocol: \<^verbatim>\<open>include/kv/packet.h\<close>, \<^verbatim>\<open>include/kv/kvrequest.h\<close>,
  \<^verbatim>\<open>include/kv/kvresponse.h\<close>, \<^verbatim>\<open>include/kv/protocolcodec.h\<close> and
  \<^verbatim>\<open>src/kv/protocolcodec.cpp\<close>. The codec converts between byte streams, packets and
  requests or responses. A C++ pointer argument is an \<open>option\<close>, \<open>None\<close> being the null
  pointer; an output parameter is returned beside the \<open>bool\<close> result, so that what a failing
  call has already stored is visible. A pointer to bytes is the memory readable from it.
\<close>

named_theorems codec_consts \<open>the protocol's constants\<close>

section \<open>Packets, requests and responses\<close>

record PacketHead =
  head_magic :: "32 word"
  head_version :: "16 word"
  head_msg_type :: "16 word"
  head_opcode :: "16 word"
  head_status :: "16 word"
  head_body_length :: "32 word"
  head_request_id :: "64 word"

record Packet =
  pkt_head :: PacketHead
  pkt_body :: bytes

record KVRequest =
  rq_opcode :: "16 word"
  rq_key :: bytes
  rq_value :: bytes
  rq_extrainfo :: bytes

record KVResponse =
  rs_status :: "16 word"
  rs_key :: bytes
  rs_value :: bytes
  rs_extrainfo :: bytes

definition kDefaultMagic :: "32 word" where [codec_consts]: "kDefaultMagic = 0x06161027"
definition kDefaultVersion :: "16 word" where [codec_consts]: "kDefaultVersion = 1"
definition kRequest :: "16 word" where [codec_consts]: "kRequest = 1"
definition kResponse :: "16 word" where [codec_consts]: "kResponse = 2"
definition kPing :: "16 word" where [codec_consts]: "kPing = 1"
definition kPut :: "16 word" where [codec_consts]: "kPut = 2"
definition kGet :: "16 word" where [codec_consts]: "kGet = 3"
definition kDel :: "16 word" where [codec_consts]: "kDel = 4"
definition kOk :: "16 word" where [codec_consts]: "kOk = 0"
definition kNotFound :: "16 word" where [codec_consts]: "kNotFound = 1"
definition kBadRequest :: "16 word" where [codec_consts]: "kBadRequest = 2"
definition kInternalError :: "16 word" where [codec_consts]: "kInternalError = 3"
definition kUnsupportedOpcode :: "16 word" where [codec_consts]: "kUnsupportedOpcode = 4"
definition kBodyTooLarge :: "16 word" where [codec_consts]: "kBodyTooLarge = 5"
definition kKeyTooLarge :: "16 word" where [codec_consts]: "kKeyTooLarge = 6"
definition kValueTooLarge :: "16 word" where [codec_consts]: "kValueTooLarge = 7"
definition kMaxKeyLength :: "32 word" where [codec_consts]: "kMaxKeyLength = 256"
definition kMaxValueLength :: "32 word" where [codec_consts]: "kMaxValueLength = 1024 * 1024"
definition kMaxBodyLength :: "32 word" where [codec_consts]: "kMaxBodyLength = 2 * 1024 * 1024"

text \<open>\<open>sizeof(PacketHead)\<close>, which the sources pin with a \<open>static_assert\<close>.\<close>

definition sizeof_PacketHead :: nat where [codec_consts]: "sizeof_PacketHead = 24"

section \<open>Byte order\<close>

definition IsBigEnd :: "bool \<Rightarrow> bool" where
  "IsBigEnd big \<longleftrightarrow> take 1 (store_int big (0x1234 :: 16 word)) = [0x12]"

definition NToH :: "bool \<Rightarrow> 'a::len word \<Rightarrow> 'a word" where
  "NToH big v = (if \<not> IsBigEnd big then bswap v else v)"

definition HToN :: "bool \<Rightarrow> 'a::len word \<Rightarrow> 'a word" where
  "HToN big v = (if \<not> IsBigEnd big then bswap v else v)"

section \<open>Integers in a byte stream\<close>

definition WriteFlowToHost ::
  "bool \<Rightarrow> bytes option \<Rightarrow> nat \<Rightarrow> nat \<Rightarrow> 'a::len word option \<Rightarrow> (bool \<times> nat \<times> 'a word option) res" where
  "WriteFlowToHost big src len offset store =
     (case src of None \<Rightarrow> Inr (False, offset, store)
      | Some m \<Rightarrow> (case store of None \<Rightarrow> Inr (False, offset, store)
        | Some v \<Rightarrow>
           if usz (offset + int_size v) > len then Inr (False, offset, store)
           else rbind (mem_get offset (int_size v) m) (\<lambda>bs.
             Inr (True, usz (offset + int_size v), Some (NToH big (load_int big bs))))))"

definition WriteHostToFlow ::
  "bool \<Rightarrow> 'a::len word \<Rightarrow> nat \<Rightarrow> bytes option \<Rightarrow> nat \<Rightarrow> (bool \<times> nat \<times> bytes option) res" where
  "WriteHostToFlow big src offset store len =
     (case store of None \<Rightarrow> Inr (False, offset, store)
      | Some m \<Rightarrow>
         if usz (int_size src + offset) > len then Inr (False, offset, store)
         else rbind (mem_put offset (store_int big (HToN big src)) m) (\<lambda>m.
           Inr (True, usz (offset + int_size src), Some m)))"

definition AppendBytes :: "bytes \<Rightarrow> bytes \<Rightarrow> nat \<Rightarrow> bytes res" where
  "AppendBytes dst src sz =
     (if sz = 0 then Inr dst
      else rbind (mem_get 0 sz src) (\<lambda>bs.
        mem_put (length dst) bs (vec_resize 0 (length dst + sz) dst)))"

definition AppendHostInteger :: "bool \<Rightarrow> bytes \<Rightarrow> 'a::len word \<Rightarrow> bytes res" where
  "AppendHostInteger big dst v = AppendBytes dst (store_int big (HToN big v)) (int_size v)"

definition ReadBodyInteger ::
  "bool \<Rightarrow> bytes \<Rightarrow> nat \<Rightarrow> 'a::len word option \<Rightarrow> (bool \<times> nat \<times> 'a word option) res" where
  "ReadBodyInteger big body offset v = WriteFlowToHost big (Some body) (length body) offset v"

definition ReadBodyString ::
  "bytes \<Rightarrow> nat \<Rightarrow> 32 word \<Rightarrow> bytes option \<Rightarrow> (bool \<times> nat \<times> bytes option) res" where
  "ReadBodyString body offset len v =
     (case v of None \<Rightarrow> Inr (False, offset, v)
      | Some _ \<Rightarrow>
         if usz (offset + unat len) > length body then Inr (False, offset, v)
         else rbind (mem_get offset (unat len) body) (\<lambda>bs.
           Inr (True, usz (offset + unat len), Some bs)))"

section \<open>Byte stream to packet and back\<close>

text \<open>
  One line \<open>if (!WriteFlowToHost(src, len, offset, &store->head_.f)) return false;\<close> of the
  decoder: \<open>ok\<close> is false once a line has returned.
\<close>

definition decode_field ::
  "bool \<Rightarrow> bytes option \<Rightarrow> nat \<Rightarrow> (PacketHead \<Rightarrow> 'a::len word) \<Rightarrow> ('a word \<Rightarrow> PacketHead \<Rightarrow> PacketHead) \<Rightarrow>
   bool \<times> nat \<times> PacketHead \<Rightarrow> (bool \<times> nat \<times> PacketHead) res" where
  "decode_field big src len get put st = (case st of (ok, offset, h) \<Rightarrow>
     if \<not> ok then Inr st
     else rbind (WriteFlowToHost big src len offset (Some (get h))) (\<lambda>(ok, offset, v).
       Inr (ok, offset, case v of Some x \<Rightarrow> put x h | None \<Rightarrow> h)))"

definition DecodeFlowToPacket ::
  "bool \<Rightarrow> bytes option \<Rightarrow> nat \<Rightarrow> Packet option \<Rightarrow> (bool \<times> Packet option) res" where
  "DecodeFlowToPacket big src len store =
     (case store of None \<Rightarrow> Inr (False, store)
      | Some p \<Rightarrow> (case src of None \<Rightarrow> Inr (False, store)
        | Some m \<Rightarrow>
           if len < sizeof_PacketHead then Inr (False, store)
           else
             rbind (decode_field big src len head_magic (\<lambda>v h. h\<lparr>head_magic := v\<rparr>) (True, 0, pkt_head p)) (\<lambda>st.
             rbind (decode_field big src len head_version (\<lambda>v h. h\<lparr>head_version := v\<rparr>) st) (\<lambda>st.
             rbind (decode_field big src len head_msg_type (\<lambda>v h. h\<lparr>head_msg_type := v\<rparr>) st) (\<lambda>st.
             rbind (decode_field big src len head_opcode (\<lambda>v h. h\<lparr>head_opcode := v\<rparr>) st) (\<lambda>st.
             rbind (decode_field big src len head_status (\<lambda>v h. h\<lparr>head_status := v\<rparr>) st) (\<lambda>st.
             rbind (decode_field big src len head_body_length (\<lambda>v h. h\<lparr>head_body_length := v\<rparr>) st) (\<lambda>st.
             rbind (decode_field big src len head_request_id (\<lambda>v h. h\<lparr>head_request_id := v\<rparr>) st) (\<lambda>(ok, offset, h).
             let p = p\<lparr>pkt_head := h\<rparr> in
             if \<not> ok then Inr (False, Some p)
             else if usz (unat (head_body_length h) + sizeof_PacketHead) > len then Inr (False, Some p)
             else rbind (mem_get offset (unat (head_body_length h)) m) (\<lambda>body.
               Inr (True, Some (p\<lparr>pkt_body := body\<rparr>))))))))))))"

definition DecodeFlowToPacket_sv :: "bool \<Rightarrow> bytes \<Rightarrow> Packet option \<Rightarrow> (bool \<times> Packet option) res" where
  "DecodeFlowToPacket_sv big src store = DecodeFlowToPacket big (Some src) (length src) store"

text \<open>One line \<open>if (!WriteHostToFlow(src->head_.f, offset, store, len)) return false;\<close>.\<close>

definition encode_field ::
  "bool \<Rightarrow> nat \<Rightarrow> 'a::len word \<Rightarrow> bool \<times> nat \<times> bytes option \<Rightarrow> (bool \<times> nat \<times> bytes option) res" where
  "encode_field big len v st = (case st of (ok, offset, store) \<Rightarrow>
     if \<not> ok then Inr st else WriteHostToFlow big v offset store len)"

definition EncodePacketToFlow ::
  "bool \<Rightarrow> Packet option \<Rightarrow> bytes option \<Rightarrow> nat \<Rightarrow> (bool \<times> bytes option) res" where
  "EncodePacketToFlow big src store len =
     (case src of None \<Rightarrow> Inr (False, store)
      | Some p \<Rightarrow> (case store of None \<Rightarrow> Inr (False, store)
        | Some _ \<Rightarrow>
           if len < usz (sizeof_PacketHead + length (pkt_body p)) then Inr (False, store)
           else
             rbind (encode_field big len (head_magic (pkt_head p)) (True, 0, store)) (\<lambda>st.
             rbind (encode_field big len (head_version (pkt_head p)) st) (\<lambda>st.
             rbind (encode_field big len (head_msg_type (pkt_head p)) st) (\<lambda>st.
             rbind (encode_field big len (head_opcode (pkt_head p)) st) (\<lambda>st.
             rbind (encode_field big len (head_status (pkt_head p)) st) (\<lambda>st.
             rbind (encode_field big len (head_body_length (pkt_head p)) st) (\<lambda>st.
             rbind (encode_field big len (head_request_id (pkt_head p)) st) (\<lambda>(ok, offset, store).
             case store of None \<Rightarrow> Inr (False, store)
             | Some m \<Rightarrow>
                if \<not> ok then Inr (False, store)
                else rbind (mem_put offset (pkt_body p) m) (\<lambda>m. Inr (True, Some m)))))))))))"

definition EncodePacketToFlow_str :: "bool \<Rightarrow> Packet option \<Rightarrow> bytes \<Rightarrow> (bool \<times> bytes) res" where
  "EncodePacketToFlow_str big src store =
     (case src of None \<Rightarrow> Inr (False, store)
      | Some p \<Rightarrow>
         let store = vec_resize 0 (usz (sizeof_PacketHead + length (pkt_body p))) store in
         rbind (EncodePacketToFlow big src (Some store) (length store)) (\<lambda>(ok, m).
           Inr (ok, case m of Some s \<Rightarrow> s | None \<Rightarrow> store)))"

section \<open>Packet to request and response and back\<close>

text \<open>The \<open>switch\<close> of \<open>EncodeKVRequestToPacket\<close>: the body built so far, and whether it returned false.\<close>

definition encode_request_body :: "bool \<Rightarrow> KVRequest \<Rightarrow> (bool \<times> bytes) res" where
  "encode_request_body big rq =
     (if rq_opcode rq = kPing then Inr (True, [])
      else if rq_opcode rq = kPut then
        let key_length = of_nat (length (rq_key rq)) :: 32 word;
            value_length = of_nat (length (rq_value rq)) :: 32 word
        in if key_length = 0 \<or> key_length > kMaxKeyLength \<or> value_length > kMaxValueLength
           then Inr (False, [])
           else
             rbind (AppendHostInteger big [] key_length) (\<lambda>body.
             rbind (AppendHostInteger big body value_length) (\<lambda>body.
             rbind (AppendBytes body (rq_key rq) (length (rq_key rq))) (\<lambda>body.
             rbind (AppendBytes body (rq_value rq) (length (rq_value rq))) (\<lambda>body.
             Inr (True, body)))))
      else if rq_opcode rq = kGet \<or> rq_opcode rq = kDel then
        let key_length = of_nat (length (rq_key rq)) :: 32 word
        in if key_length = 0 \<or> key_length > kMaxKeyLength
           then Inr (False, [])
           else
             rbind (AppendHostInteger big [] key_length) (\<lambda>body.
             rbind (AppendBytes body (rq_key rq) (length (rq_key rq))) (\<lambda>body.
             Inr (True, body)))
      else Inr (False, []))"

definition EncodeKVRequestToPacket ::
  "bool \<Rightarrow> KVRequest option \<Rightarrow> Packet option \<Rightarrow> (bool \<times> Packet option) res" where
  "EncodeKVRequestToPacket big src store =
     (case src of None \<Rightarrow> Inr (False, store)
      | Some rq \<Rightarrow> (case store of None \<Rightarrow> Inr (False, store)
        | Some p \<Rightarrow>
           let h = (pkt_head p)\<lparr>head_magic := kDefaultMagic, head_version := kDefaultVersion,
                 head_msg_type := kRequest, head_opcode := rq_opcode rq, head_status := kOk,
                 head_request_id := 0\<rparr>
           in rbind (encode_request_body big rq) (\<lambda>(ok, body).
             if \<not> ok \<or> length body > unat kMaxBodyLength
             then Inr (False, Some (p\<lparr>pkt_head := h, pkt_body := body\<rparr>))
             else Inr (True, Some (p\<lparr>pkt_head := h\<lparr>head_body_length := of_nat (length body)\<rparr>,
                                    pkt_body := body\<rparr>)))))"

text \<open>
  \<open>read_key\<close> and \<open>read_value\<close> are the lines \<open>if (!ReadBodyString(...)) return false;\<close>
  on the two string members of the request.
\<close>

definition read_key ::
  "bytes \<Rightarrow> 32 word \<Rightarrow> bool \<times> nat \<times> KVRequest \<Rightarrow> (bool \<times> nat \<times> KVRequest) res" where
  "read_key body len st = (case st of (ok, offset, rq) \<Rightarrow>
     if \<not> ok then Inr st
     else rbind (ReadBodyString body offset len (Some (rq_key rq))) (\<lambda>(ok, offset, v).
       Inr (ok, offset, case v of Some x \<Rightarrow> rq\<lparr>rq_key := x\<rparr> | None \<Rightarrow> rq)))"

definition read_value ::
  "bytes \<Rightarrow> 32 word \<Rightarrow> bool \<times> nat \<times> KVRequest \<Rightarrow> (bool \<times> nat \<times> KVRequest) res" where
  "read_value body len st = (case st of (ok, offset, rq) \<Rightarrow>
     if \<not> ok then Inr st
     else rbind (ReadBodyString body offset len (Some (rq_value rq))) (\<lambda>(ok, offset, v).
       Inr (ok, offset, case v of Some x \<Rightarrow> rq\<lparr>rq_value := x\<rparr> | None \<Rightarrow> rq)))"

definition decode_request_body :: "bool \<Rightarrow> bytes \<Rightarrow> KVRequest \<Rightarrow> (bool \<times> KVRequest) res" where
  "decode_request_body big body rq =
     (if rq_opcode rq = kPing then Inr (body = [], rq)
      else if rq_opcode rq = kPut then
        rbind (ReadBodyInteger big body 0 (Some (0 :: 32 word))) (\<lambda>(ok, offset, kl).
        if \<not> ok then Inr (False, rq) else
        rbind (ReadBodyInteger big body offset (Some (0 :: 32 word))) (\<lambda>(ok, offset, vl).
        if \<not> ok then Inr (False, rq) else
        (case (kl, vl) of
           (Some key_length, Some value_length) \<Rightarrow>
             if key_length = 0 \<or> key_length > kMaxKeyLength \<or> value_length > kMaxValueLength
             then Inr (False, rq)
             else rbind (read_key body key_length (True, offset, rq)) (\<lambda>st.
                  rbind (read_value body value_length st) (\<lambda>(ok, offset, rq).
                  Inr (ok \<and> offset = length body, rq)))
         | _ \<Rightarrow> Inr (False, rq))))
      else if rq_opcode rq = kGet \<or> rq_opcode rq = kDel then
        rbind (ReadBodyInteger big body 0 (Some (0 :: 32 word))) (\<lambda>(ok, offset, kl).
        if \<not> ok then Inr (False, rq) else
        (case kl of
           Some key_length \<Rightarrow>
             if key_length = 0 \<or> key_length > kMaxKeyLength then Inr (False, rq)
             else rbind (read_key body key_length (True, offset, rq)) (\<lambda>(ok, offset, rq).
                  Inr (ok \<and> offset = length body, rq))
         | None \<Rightarrow> Inr (False, rq)))
      else Inr (False, rq))"

definition DecodePacketToKVRequest ::
  "bool \<Rightarrow> Packet option \<Rightarrow> KVRequest option \<Rightarrow> (bool \<times> KVRequest option) res" where
  "DecodePacketToKVRequest big src store =
     (case src of None \<Rightarrow> Inr (False, store)
      | Some p \<Rightarrow> (case store of None \<Rightarrow> Inr (False, store)
        | Some rq \<Rightarrow>
           if head_msg_type (pkt_head p) \<noteq> kRequest then Inr (False, store)
           else if unat (head_body_length (pkt_head p)) \<noteq> length (pkt_body p) then Inr (False, store)
           else if head_body_length (pkt_head p) > kMaxBodyLength then Inr (False, store)
           else rbind (decode_request_body big (pkt_body p)
                  (rq\<lparr>rq_opcode := head_opcode (pkt_head p), rq_key := [], rq_value := [], rq_extrainfo := []\<rparr>))
                (\<lambda>(ok, rq). Inr (ok, Some rq))))"

definition DecodePacketToKVResponse ::
  "bool \<Rightarrow> Packet option \<Rightarrow> KVResponse option \<Rightarrow> (bool \<times> KVResponse option) res" where
  "DecodePacketToKVResponse big src store =
     (case src of None \<Rightarrow> Inr (False, store)
      | Some p \<Rightarrow> (case store of None \<Rightarrow> Inr (False, store)
        | Some rs \<Rightarrow>
           let rs = rs\<lparr>rs_status := head_status (pkt_head p), rs_key := [], rs_value := [], rs_extrainfo := []\<rparr>;
               op = head_opcode (pkt_head p); body = pkt_body p
           in if op = kPing \<or> op = kPut \<or> op = kDel then Inr (body = [], Some rs)
              else if op = kGet then
                if head_status (pkt_head p) \<noteq> kOk then Inr (body = [], Some rs)
                else
                  rbind (ReadBodyInteger big body 0 (Some (0 :: 32 word))) (\<lambda>(ok, offset, vl).
                  if \<not> ok then Inr (False, Some rs) else
                  (case vl of
                     Some value_length \<Rightarrow>
                       if value_length > kMaxValueLength then Inr (False, Some rs)
                       else rbind (ReadBodyString body offset value_length (Some (rs_value rs))) (\<lambda>(ok, offset, v).
                         let rs = (case v of Some x \<Rightarrow> rs\<lparr>rs_value := x\<rparr> | None \<Rightarrow> rs)
                         in Inr (ok \<and> offset = length body, Some rs))
                   | None \<Rightarrow> Inr (False, Some rs)))
              else Inr (body = [], Some rs)))"

definition EncodeKVResponseToPacket ::
  "bool \<Rightarrow> KVResponse option \<Rightarrow> 16 word \<Rightarrow> 64 word \<Rightarrow> Packet option \<Rightarrow> (bool \<times> Packet option) res" where
  "EncodeKVResponseToPacket big src opcode request_id store =
     (case src of None \<Rightarrow> Inr (False, store)
      | Some rs \<Rightarrow> (case store of None \<Rightarrow> Inr (False, store)
        | Some p \<Rightarrow>
           let h = (pkt_head p)\<lparr>head_magic := kDefaultMagic, head_version := kDefaultVersion,
                 head_msg_type := kResponse, head_opcode := opcode, head_status := rs_status rs,
                 head_request_id := request_id\<rparr>
           in rbind (if opcode = kGet \<and> rs_status rs = kOk then
                  let value_length = of_nat (length (rs_value rs)) :: 32 word
                  in if value_length > kMaxValueLength then Inr (False, [])
                     else rbind (AppendHostInteger big [] value_length) (\<lambda>body.
                          rbind (AppendBytes body (rs_value rs) (length (rs_value rs))) (\<lambda>body.
                          Inr (True, body)))
                else Inr (True, [])) (\<lambda>(ok, body).
             if \<not> ok \<or> length body > unat kMaxBodyLength
             then Inr (False, Some (p\<lparr>pkt_head := h, pkt_body := body\<rparr>))
             else Inr (True, Some (p\<lparr>pkt_head := h\<lparr>head_body_length := of_nat (length body)\<rparr>,
                                    pkt_body := body\<rparr>)))))"

section \<open>The operations on well-behaved arguments\<close>

lemma IsBigEnd_iff [simp]: "IsBigEnd big \<longleftrightarrow> big"
  by (cases big) (simp_all add: IsBigEnd_def store_int_def be_bytes_numeral)

lemma NToH_hton [simp]: "NToH big v = hton big v" "HToN big v = hton big v"
  by (simp_all add: NToH_def HToN_def hton_def)

lemma WriteFlowToHost_ok:
  fixes v :: "'a::len word"
  assumes "8 * int_size v = LENGTH('a)" "offset + int_size v \<le> len" "len \<le> length m"
    "len < 18446744073709551616"
  shows "WriteFlowToHost big (Some m) len offset (Some v) =
    Inr (True, offset + int_size v, Some (of_be (take (int_size v) (drop offset m)) :: 'a word))"
  using assms by (simp add: WriteFlowToHost_def hton_load_int)

lemma WriteFlowToHost_short:
  "len < offset + int_size v \<Longrightarrow> offset + int_size v < 18446744073709551616 \<Longrightarrow>
   WriteFlowToHost big (Some m) len offset (Some v) = Inr (False, offset, Some v)"
  by (simp add: WriteFlowToHost_def)

lemma AppendBytes_all [simp]: "AppendBytes dst src (length src) = Inr (dst @ src)"
  by (simp add: AppendBytes_def)

lemma AppendHostInteger_eq:
  "8 * int_size v = LENGTH('a) \<Longrightarrow>
   AppendHostInteger big dst (v :: 'a::len word) = Inr (dst @ be_bytes (int_size v) v)"
  using AppendBytes_all [of dst "be_bytes (int_size v) v"]
  by (simp add: AppendHostInteger_def store_int_hton)

lemma AppendHostInteger_32 [simp]:
  "AppendHostInteger big dst (v :: 32 word) = Inr (dst @ be_bytes 4 v)"
  by (simp add: AppendHostInteger_eq)

lemma ReadBodyInteger_32:
  assumes "length body < 18446744073709551612" "offset \<le> length body"
  shows "ReadBodyInteger big body offset (Some (v :: 32 word)) =
    (if offset + 4 \<le> length body then Inr (True, offset + 4, Some (of_be (take 4 (drop offset body))))
     else Inr (False, offset, Some v))"
  using assms by (simp add: ReadBodyInteger_def WriteFlowToHost_ok WriteFlowToHost_short)

lemma ReadBodyString_eq:
  assumes "length body < 18446744069414584320" "offset \<le> length body"
  shows "ReadBodyString body offset len (Some v) =
    (if offset + unat len \<le> length body
     then Inr (True, offset + unat len, Some (take (unat len) (drop offset body)))
     else Inr (False, offset, Some v))"
proof -
  from unat_32_bound [of len] assms show ?thesis by (simp add: ReadBodyString_def)
qed

section \<open>The wire format\<close>

text \<open>
  The layout of the header as the protocol document gives it, big-endian and without
  padding: the reference the encoder and the decoder are compared with.
\<close>

definition parse_head :: "bytes \<Rightarrow> PacketHead" where
  "parse_head m = \<lparr>head_magic = of_be (take 4 m), head_version = of_be (take 2 (drop 4 m)),
     head_msg_type = of_be (take 2 (drop 6 m)), head_opcode = of_be (take 2 (drop 8 m)),
     head_status = of_be (take 2 (drop 10 m)), head_body_length = of_be (take 4 (drop 12 m)),
     head_request_id = of_be (take 8 (drop 16 m))\<rparr>"

definition head_wire :: "PacketHead \<Rightarrow> bytes" where
  "head_wire h = be_bytes 4 (head_magic h) @ be_bytes 2 (head_version h) @ be_bytes 2 (head_msg_type h)
     @ be_bytes 2 (head_opcode h) @ be_bytes 2 (head_status h) @ be_bytes 4 (head_body_length h)
     @ be_bytes 8 (head_request_id h)"

definition packet_wire :: "Packet \<Rightarrow> bytes" where
  "packet_wire p = head_wire (pkt_head p) @ pkt_body p"

definition packet_wf :: "Packet \<Rightarrow> bool" where
  "packet_wf p \<longleftrightarrow> unat (head_body_length (pkt_head p)) = length (pkt_body p)"

lemma length_head_wire [simp]: "length (head_wire h) = 24"
  by (simp add: head_wire_def)

lemma parse_head_wire [simp]: "parse_head (head_wire h @ rest) = h"
  by (simp add: parse_head_def head_wire_def of_be_be_bytes)

lemma head_wire_parse: "24 \<le> length m \<Longrightarrow> head_wire (parse_head m) = take 24 m"
proof -
  assume len: "24 \<le> length m"
  have sz: "be_bytes n (of_be bs :: 'a::len word) = bs" if "length bs = n" "8 * n \<le> LENGTH('a)" for n bs
    using be_bytes_of_be [of bs, where 'a = 'a] that by simp
  have "head_wire (parse_head m) = take 4 m @ take 2 (drop 4 m) @ take 2 (drop 6 m) @ take 2 (drop 8 m)
      @ take 2 (drop 10 m) @ take 4 (drop 12 m) @ take 8 (drop 16 m)"
    using len by (simp add: head_wire_def parse_head_def sz)
  also have "\<dots> = take (4 + (2 + (2 + (2 + (2 + (4 + 8)))))) m"
    by (simp only: take_add drop_drop) simp
  also have "\<dots> = take 24 m"
    by simp
  finally show ?thesis .
qed

lemma decode_field_ok:
  fixes get :: "PacketHead \<Rightarrow> 'a::len word"
  assumes "8 * int_size (get h) = LENGTH('a)" "offset + int_size (get h) \<le> len" "len \<le> length m"
    "len < 18446744073709551616"
  shows "decode_field big (Some m) len get put (True, offset, h) =
    Inr (True, offset + int_size (get h), put (of_be (take (int_size (get h)) (drop offset m))) h)"
  using assms by (simp add: decode_field_def WriteFlowToHost_ok)

theorem DecodeFlowToPacket_eq:
  assumes "24 \<le> len" "len \<le> length m" "len < 18446744073709551616"
  shows "DecodeFlowToPacket big (Some m) len (Some p) =
    (let h = parse_head m; n = unat (head_body_length h) in
     if n + 24 > len then Inr (False, Some (p\<lparr>pkt_head := h\<rparr>))
     else Inr (True, Some \<lparr>pkt_head = h, pkt_body = take n (drop 24 m)\<rparr>))"
  using assms unat_32_bound [of "of_be (take 4 (drop 12 m))"]
  by (cases p) (simp add: DecodeFlowToPacket_def decode_field_ok sizeof_PacketHead_def parse_head_def Let_def)

lemma DecodeFlowToPacket_short:
  "len < 24 \<Longrightarrow> DecodeFlowToPacket big src len store = Inr (False, store)"
  by (simp add: DecodeFlowToPacket_def sizeof_PacketHead_def split: option.splits)

lemma DecodeFlowToPacket_null [simp]:
  "DecodeFlowToPacket big None len store = Inr (False, store)"
  "DecodeFlowToPacket big src len None = Inr (False, None)"
  by (simp_all add: DecodeFlowToPacket_def split: option.splits)

lemma encode_field_ok:
  fixes v :: "'a::len word"
  assumes "8 * int_size v = LENGTH('a)" "offset + int_size v \<le> len" "len = length m"
    "len < 18446744073709551616"
  shows "encode_field big len v (True, offset, Some m) = Inr (True, offset + int_size v,
    Some (take offset m @ be_bytes (int_size v) v @ drop (offset + int_size v) m))"
  using assms by (simp add: encode_field_def WriteHostToFlow_def store_int_hton add.commute)

theorem EncodePacketToFlow_eq:
  assumes "24 + length (pkt_body p) \<le> len" "len = length m" "len < 18446744073709551616"
  shows "EncodePacketToFlow big (Some p) (Some m) len =
    Inr (True, Some (packet_wire p @ drop (24 + length (pkt_body p)) m))"
  using assms
  by (simp add: EncodePacketToFlow_def sizeof_PacketHead_def encode_field_ok packet_wire_def head_wire_def
      add.commute)

theorem EncodePacketToFlow_str_eq:
  assumes "24 + length (pkt_body p) < 18446744073709551616"
  shows "EncodePacketToFlow_str big (Some p) s = Inr (True, packet_wire p)"
  using assms by (simp add: EncodePacketToFlow_str_def sizeof_PacketHead_def EncodePacketToFlow_eq)

lemma packet_wf_bound: "packet_wf p \<Longrightarrow> length (pkt_body p) < 4294967296"
  using unat_32_bound [of "head_body_length (pkt_head p)"] by (simp add: packet_wf_def)

lemma DecodeFlowToPacket_wire:
  assumes "packet_wf p" "length rest < 9223372036854775808"
  shows "DecodeFlowToPacket_sv big (packet_wire p @ rest) (Some q) = Inr (True, Some p)"
  using assms packet_wf_bound [OF assms(1)]
  by (cases p) (simp add: DecodeFlowToPacket_sv_def DecodeFlowToPacket_eq packet_wire_def packet_wf_def)

lemma DecodeFlowToPacket_wire_only:
  "packet_wf p \<Longrightarrow> DecodeFlowToPacket_sv big (packet_wire p) (Some q) = Inr (True, Some p)"
  using DecodeFlowToPacket_wire [of p "[]"] by simp

lemma EncodePacketToFlow_wf:
  "packet_wf p \<Longrightarrow> EncodePacketToFlow_str big (Some p) s = Inr (True, packet_wire p)"
  by (drule packet_wf_bound) (simp add: EncodePacketToFlow_str_eq)

end
