(* ===== verification/KV_Protocol.thy ===== *)
theory KV_Protocol
  imports KV_Codec
begin

text \<open>
  What the codec promises at the level of requests and responses: the encoders accept exactly
  the requests the protocol document allows, the decoders accept exactly their encodings, and
  the two are inverse to each other on hosts of either byte order.
\<close>

section \<open>Requests on the wire\<close>

text \<open>The constraints and the body layout of the protocol document, per opcode.\<close>

definition request_ok :: "KVRequest \<Rightarrow> bool" where
  "request_ok rq \<longleftrightarrow>
     rq_opcode rq = kPing \<or>
     rq_opcode rq = kPut \<and> rq_key rq \<noteq> [] \<and> length (rq_key rq) \<le> 256 \<and> length (rq_value rq) \<le> 1048576 \<or>
     (rq_opcode rq = kGet \<or> rq_opcode rq = kDel) \<and> rq_key rq \<noteq> [] \<and> length (rq_key rq) \<le> 256"

definition request_wire :: "KVRequest \<Rightarrow> bytes" where
  "request_wire rq =
     (if rq_opcode rq = kPut
      then be_bytes 4 (of_nat (length (rq_key rq)) :: 32 word) @ be_bytes 4 (of_nat (length (rq_value rq)) :: 32 word)
           @ rq_key rq @ rq_value rq
      else if rq_opcode rq = kGet \<or> rq_opcode rq = kDel
      then be_bytes 4 (of_nat (length (rq_key rq)) :: 32 word) @ rq_key rq
      else [])"

text \<open>What a request keeps on the wire: members its opcode does not carry are empty.\<close>

definition request_norm :: "KVRequest \<Rightarrow> KVRequest" where
  "request_norm rq = rq\<lparr>rq_key := if rq_opcode rq = kPing then [] else rq_key rq,
     rq_value := if rq_opcode rq = kPut then rq_value rq else [], rq_extrainfo := []\<rparr>"

text \<open>Concrete values for the witnesses.\<close>

definition sample_packet :: Packet where
  "sample_packet = \<lparr>pkt_head = \<lparr>head_magic = 0x06161027, head_version = 1, head_msg_type = 1,
     head_opcode = 3, head_status = 0, head_body_length = 2, head_request_id = 7\<rparr>, pkt_body = [1, 2]\<rparr>"

definition empty_packet :: Packet where
  "empty_packet = \<lparr>pkt_head = \<lparr>head_magic = 0, head_version = 0, head_msg_type = 0,
     head_opcode = 0, head_status = 0, head_body_length = 0, head_request_id = 0\<rparr>, pkt_body = []\<rparr>"

definition sample_put :: KVRequest where
  "sample_put = \<lparr>rq_opcode = kPut, rq_key = [1, 2], rq_value = [3, 4, 5], rq_extrainfo = [6]\<rparr>"

lemma opcode_distinct [simp]:
  "kPing \<noteq> kPut" "kPing \<noteq> kGet" "kPing \<noteq> kDel" "kPut \<noteq> kGet" "kPut \<noteq> kDel" "kGet \<noteq> kDel"
  "kPut \<noteq> kPing" "kGet \<noteq> kPing" "kDel \<noteq> kPing" "kGet \<noteq> kPut" "kDel \<noteq> kPut" "kDel \<noteq> kGet"
  by (simp_all add: codec_consts)

lemma limit_unat [simp]:
  "unat kMaxKeyLength = 256" "unat kMaxValueLength = 1048576" "unat kMaxBodyLength = 2097152"
  by (simp_all add: codec_consts)

lemma key_length_check:
  "n < 4294967296 \<Longrightarrow> (of_nat n :: 32 word) = 0 \<longleftrightarrow> n = 0"
  "n < 4294967296 \<Longrightarrow> kMaxKeyLength < (of_nat n :: 32 word) \<longleftrightarrow> 256 < n"
  "n < 4294967296 \<Longrightarrow> kMaxValueLength < (of_nat n :: 32 word) \<longleftrightarrow> 1048576 < n"
  by (simp_all add: word_less_nat_alt flip: unat_eq_0)

lemma length_check_unat:
  "(w :: 32 word) \<noteq> 0 \<longleftrightarrow> 0 < unat w"
  "kMaxKeyLength < w \<longleftrightarrow> 256 < unat w"
  "kMaxValueLength < w \<longleftrightarrow> 1048576 < unat w"
  "kMaxBodyLength < w \<longleftrightarrow> 2097152 < unat w"
  by (simp_all add: word_less_nat_alt unat_gt_0)


lemma decode_put_iff:
  assumes "length body < 4294967296" "rq_opcode rq = kPut"
  shows "decode_request_body big body rq = Inr (True, rq') \<longleftrightarrow>
    (\<exists>k v. rq' = rq\<lparr>rq_key := k, rq_value := v\<rparr> \<and> k \<noteq> [] \<and> length k \<le> 256 \<and> length v \<le> 1048576 \<and>
       body = be_bytes 4 (of_nat (length k) :: 32 word) @ be_bytes 4 (of_nat (length v) :: 32 word) @ k @ v)"
  (is "?l \<longleftrightarrow> ?r")
proof
  assume ?l
  define kl vl :: "32 word" where "kl = of_be (take 4 body)" and "vl = of_be (take 4 (drop 4 body))"
  define k v where "k = take (unat kl) (drop 8 body)" and "v = take (unat vl) (drop (8 + unat kl) body)"
  from \<open>?l\<close> assms have len: "8 \<le> length body" "8 + unat kl + unat vl = length body"
    and lim: "kl \<noteq> 0" "\<not> kMaxKeyLength < kl" "\<not> kMaxValueLength < vl"
    and rq': "rq' = rq\<lparr>rq_key := k, rq_value := v\<rparr>"
    by (auto simp: decode_request_body_def ReadBodyInteger_32 ReadBodyString_eq read_key_def read_value_def
        kl_def vl_def k_def v_def split: if_splits)
  have kv: "length k = unat kl" "length v = unat vl"
    using len by (simp_all add: k_def v_def)
  have "be_bytes 4 kl = take 4 body" "be_bytes 4 vl = take 4 (drop 4 body)"
    using be_bytes_of_be [of "take 4 body", where 'a = 32] be_bytes_of_be [of "take 4 (drop 4 body)", where 'a = 32] len
    by (simp_all add: kl_def vl_def)
  moreover have "body = take 4 body @ take 4 (drop 4 body) @ k @ v"
  proof -
    have "take 4 body @ take 4 (drop 4 body) @ k @ v = take (4 + (4 + (unat kl + unat vl))) body"
      by (simp only: take_add drop_drop k_def v_def) (simp add: add.commute)
    then show ?thesis using len by simp
  qed
  ultimately have "body = be_bytes 4 (of_nat (length k) :: 32 word) @ be_bytes 4 (of_nat (length v) :: 32 word) @ k @ v"
    by (simp only: kv of_nat_unat ucast_id)
  moreover have "k \<noteq> []" "length k \<le> 256" "length v \<le> 1048576"
    using lim kv by (auto simp: length_check_unat)
  ultimately show ?r
    using rq' by blast
next
  assume ?r
  then show ?l
    using assms by (auto simp: decode_request_body_def ReadBodyInteger_32 ReadBodyString_eq read_key_def read_value_def
        of_be_be_bytes key_length_check)
qed


lemma decode_key_iff:
  assumes "length body < 4294967296" "rq_opcode rq = kGet \<or> rq_opcode rq = kDel"
  shows "decode_request_body big body rq = Inr (True, rq') \<longleftrightarrow>
    (\<exists>k. rq' = rq\<lparr>rq_key := k\<rparr> \<and> k \<noteq> [] \<and> length k \<le> 256 \<and>
       body = be_bytes 4 (of_nat (length k) :: 32 word) @ k)"
  (is "?l \<longleftrightarrow> ?r")
proof
  assume ?l
  define kl :: "32 word" where "kl = of_be (take 4 body)"
  define k where "k = drop 4 body"
  from \<open>?l\<close> assms have len: "4 \<le> length body" "4 + unat kl = length body"
    and lim: "kl \<noteq> 0" "\<not> kMaxKeyLength < kl" and rq': "rq' = rq\<lparr>rq_key := k\<rparr>"
    by (auto simp: decode_request_body_def ReadBodyInteger_32 ReadBodyString_eq read_key_def
        kl_def k_def split: if_splits)
  have kv: "length k = unat kl"
    using len by (simp add: k_def)
  have "be_bytes 4 kl = take 4 body"
    using be_bytes_of_be [of "take 4 body", where 'a = 32] len by (simp add: kl_def)
  then have "body = be_bytes 4 (of_nat (length k) :: 32 word) @ k"
    by (simp only: kv of_nat_unat ucast_id) (simp add: k_def)
  moreover have "k \<noteq> []" "length k \<le> 256"
    using lim kv by (auto simp: length_check_unat)
  ultimately show ?r
    using rq' by blast
next
  assume ?r
  then show ?l
    using assms by (auto simp: decode_request_body_def ReadBodyInteger_32 ReadBodyString_eq read_key_def
        of_be_be_bytes key_length_check)
qed

lemma decode_request_body_total:
  "length body < 4294967296 \<Longrightarrow> \<exists>ok rq'. decode_request_body big body rq = Inr (ok, rq')"
  by (auto simp: decode_request_body_def ReadBodyInteger_32 ReadBodyString_eq read_key_def read_value_def)

lemma request_wire_short: "request_ok rq \<Longrightarrow> length (request_wire rq) \<le> 1048840"
  by (auto simp: request_ok_def request_wire_def)

lemma decode_request_body_iff:
  assumes "length body < 4294967296" "rq_key rq = []" "rq_value rq = []" "rq_extrainfo rq = []"
  shows "decode_request_body big body rq = Inr (True, rq') \<longleftrightarrow>
    rq_opcode rq' = rq_opcode rq \<and> request_norm rq' = rq' \<and> request_ok rq' \<and> body = request_wire rq'"
proof -
  obtain op where rq: "rq = \<lparr>rq_opcode = op, rq_key = [], rq_value = [], rq_extrainfo = []\<rparr>"
    using assms by (cases rq) auto
  consider "rq_opcode rq = kPing" | "rq_opcode rq = kPut" | "rq_opcode rq = kGet \<or> rq_opcode rq = kDel"
    | "rq_opcode rq \<notin> {kPing, kPut, kGet, kDel}" by auto
  then show ?thesis
  proof cases
    case 1
    with assms rq show ?thesis
      by (cases rq') (auto simp: decode_request_body_def request_norm_def request_ok_def request_wire_def)
  next
    case 2
    with assms rq show ?thesis
      by (cases rq') (auto simp: decode_put_iff request_norm_def request_ok_def request_wire_def)
  next
    case 3
    with assms rq show ?thesis
      by (cases rq') (auto simp: decode_key_iff request_norm_def request_ok_def request_wire_def)
  next
    case 4
    with assms show ?thesis
      by (auto simp: decode_request_body_def request_ok_def)
  qed
qed

theorem DecodePacketToKVRequest_iff:
  "DecodePacketToKVRequest big (Some p) (Some rq0) = Inr (True, Some rq) \<longleftrightarrow>
     head_msg_type (pkt_head p) = kRequest \<and> packet_wf p \<and>
     head_opcode (pkt_head p) = rq_opcode rq \<and> request_norm rq = rq \<and> request_ok rq \<and>
     pkt_body p = request_wire rq"
proof (cases "packet_wf p")
  case True
  note bnd = packet_wf_bound [OF True]
  have "\<not> kMaxBodyLength < head_body_length (pkt_head p)" if "request_ok rq" "pkt_body p = request_wire rq"
    using request_wire_short [OF that(1)] that(2) True by (simp add: length_check_unat packet_wf_def)
  with True bnd show ?thesis
    by (auto simp: DecodePacketToKVRequest_def res_simps decode_request_body_iff packet_wf_def ex_bool_eq)
next
  case False
  then show ?thesis by (auto simp: DecodePacketToKVRequest_def packet_wf_def)
qed


definition request_packet :: "KVRequest \<Rightarrow> Packet" where
  "request_packet rq = \<lparr>pkt_head = \<lparr>head_magic = kDefaultMagic, head_version = kDefaultVersion,
     head_msg_type = kRequest, head_opcode = rq_opcode rq, head_status = kOk,
     head_body_length = of_nat (length (request_wire rq)), head_request_id = 0\<rparr>,
     pkt_body = request_wire rq\<rparr>"

lemma request_packet_simps [simp]:
  "head_msg_type (pkt_head (request_packet rq)) = kRequest"
  "head_opcode (pkt_head (request_packet rq)) = rq_opcode rq"
  "pkt_body (request_packet rq) = request_wire rq"
  by (simp_all add: request_packet_def)

lemma packet_wf_request_packet: "request_ok rq \<Longrightarrow> packet_wf (request_packet rq)"
  by (drule request_wire_short) (simp add: packet_wf_def request_packet_def)

lemma encode_request_body_ok:
  "request_ok rq \<Longrightarrow> encode_request_body big rq = Inr (True, request_wire rq)"
  by (auto simp: request_ok_def encode_request_body_def request_wire_def key_length_check)

lemma encode_request_body_cases:
  "\<not> request_ok rq \<Longrightarrow>
   \<exists>ok body. encode_request_body big rq = Inr (ok, body) \<and> (ok \<longrightarrow> 4294967296 \<le> length body)"
  by (cases "length (rq_key rq) < 4294967296"; cases "length (rq_value rq) < 4294967296")
    (auto simp: request_ok_def encode_request_body_def key_length_check Let_def)

theorem EncodeKVRequestToPacket_ok:
  "request_ok rq \<Longrightarrow> EncodeKVRequestToPacket big (Some rq) (Some p) = Inr (True, Some (request_packet rq))"
  using request_wire_short [of rq]
  by (cases p) (simp add: EncodeKVRequestToPacket_def encode_request_body_ok request_packet_def)

theorem EncodeKVRequestToPacket_reject:
  "\<not> request_ok rq \<Longrightarrow> \<exists>p'. EncodeKVRequestToPacket big (Some rq) (Some p) = Inr (False, Some p')"
  by (drule encode_request_body_cases [where big = big]) (auto simp: EncodeKVRequestToPacket_def)

section \<open>Responses on the wire\<close>

definition response_ok :: "KVResponse \<Rightarrow> 16 word \<Rightarrow> bool" where
  "response_ok rs op \<longleftrightarrow> (op = kGet \<and> rs_status rs = kOk \<longrightarrow> length (rs_value rs) \<le> 1048576)"

definition response_wire :: "KVResponse \<Rightarrow> 16 word \<Rightarrow> bytes" where
  "response_wire rs op =
     (if op = kGet \<and> rs_status rs = kOk
      then be_bytes 4 (of_nat (length (rs_value rs)) :: 32 word) @ rs_value rs else [])"

definition response_packet :: "KVResponse \<Rightarrow> 16 word \<Rightarrow> 64 word \<Rightarrow> Packet" where
  "response_packet rs op rid = \<lparr>pkt_head = \<lparr>head_magic = kDefaultMagic, head_version = kDefaultVersion,
     head_msg_type = kResponse, head_opcode = op, head_status = rs_status rs,
     head_body_length = of_nat (length (response_wire rs op)), head_request_id = rid\<rparr>,
     pkt_body = response_wire rs op\<rparr>"

definition response_norm :: "KVResponse \<Rightarrow> 16 word \<Rightarrow> KVResponse" where
  "response_norm rs op = rs\<lparr>rs_key := [], rs_extrainfo := [],
     rs_value := if op = kGet \<and> rs_status rs = kOk then rs_value rs else []\<rparr>"

lemma response_wire_short: "response_ok rs op \<Longrightarrow> length (response_wire rs op) \<le> 1048580"
  by (auto simp: response_ok_def response_wire_def)

lemma packet_wf_response_packet: "response_ok rs op \<Longrightarrow> packet_wf (response_packet rs op rid)"
  by (drule response_wire_short) (simp add: packet_wf_def response_packet_def)

theorem EncodeKVResponseToPacket_ok:
  "response_ok rs op \<Longrightarrow>
   EncodeKVResponseToPacket big (Some rs) op rid (Some p) = Inr (True, Some (response_packet rs op rid))"
  using response_wire_short [of rs op]
  by (cases p) (auto simp: EncodeKVResponseToPacket_def response_packet_def response_ok_def
      response_wire_def key_length_check)

theorem EncodeKVResponseToPacket_reject:
  assumes "\<not> response_ok rs op"
  shows "\<exists>p'. EncodeKVResponseToPacket big (Some rs) op rid (Some p) = Inr (False, Some p')"
  using assms by (cases "length (rs_value rs) < 4294967296")
    (auto simp: EncodeKVResponseToPacket_def response_ok_def key_length_check Let_def)

theorem DecodePacketToKVResponse_response_packet:
  assumes "response_ok rs op"
  shows "DecodePacketToKVResponse big (Some (response_packet rs op rid)) (Some rs0) =
    Inr (True, Some (response_norm rs op))"
  using assms
  by (cases rs0; cases rs) (auto simp: DecodePacketToKVResponse_def response_packet_def response_ok_def response_wire_def
      response_norm_def ReadBodyInteger_32 ReadBodyString_eq of_be_be_bytes key_length_check Let_def)

section \<open>Properties\<close>

text \<open>
  C16. A packet whose header states the length of its body survives the wire: encoded on a
  host of byte order \<open>a\<close> and decoded on a host of byte order \<open>b\<close>, in front of any further
  bytes of the stream, it comes back field by field, and nothing of the output objects'
  previous contents is left.
\<close>

theorem packet_roundtrip:
  assumes "packet_wf p" "length rest < 9223372036854775808"
  shows "rbind (EncodePacketToFlow_str a (Some p) s)
      (\<lambda>(ok, bs). DecodeFlowToPacket_sv b (bs @ rest) (Some q)) = Inr (True, Some p)"
  using assms by (simp add: EncodePacketToFlow_wf DecodeFlowToPacket_wire)

theorem packet_roundtrip_witness:
  "rbind (EncodePacketToFlow_str False (Some sample_packet) [8])
      (\<lambda>(ok, bs). DecodeFlowToPacket_sv True (bs @ [9]) (Some empty_packet)) = Inr (True, Some sample_packet)"
  by (rule packet_roundtrip) (simp_all add: packet_wf_def sample_packet_def)

text \<open>
  C17. The encoding is canonical: whatever bytes the decoder accepts, encoding the packet it
  returns, on either kind of host, gives exactly the bytes that were consumed, and the packet
  is well formed.
\<close>

theorem packet_decode_encode:
  assumes "DecodeFlowToPacket_sv a bs (Some q) = Inr (True, Some p)" "length bs < 18446744073709551616"
  shows "EncodePacketToFlow_str b (Some p) s = Inr (True, take (24 + length (pkt_body p)) bs) \<and>
    packet_wf p \<and> 24 + length (pkt_body p) \<le> length bs"
proof -
  have len: "24 \<le> length bs"
    using assms DecodeFlowToPacket_short [of "length bs" a "Some bs" "Some q"]
    by (cases "length bs < 24") (auto simp: DecodeFlowToPacket_sv_def)
  with assms have p: "p = \<lparr>pkt_head = parse_head bs, pkt_body = take (unat (head_body_length (parse_head bs))) (drop 24 bs)\<rparr>"
    "24 + unat (head_body_length (parse_head bs)) \<le> length bs"
    by (auto simp: DecodeFlowToPacket_sv_def DecodeFlowToPacket_eq Let_def split: if_splits)
  have "packet_wire p = take (24 + length (pkt_body p)) bs"
    using p len by (simp add: packet_wire_def head_wire_parse take_add)
  with p assms(2) show ?thesis
    by (simp add: EncodePacketToFlow_str_eq packet_wf_def)
qed

theorem packet_decode_encode_witness:
  "EncodePacketToFlow_str True (Some sample_packet) [] = Inr (True, take (24 + length (pkt_body sample_packet)) (packet_wire sample_packet @ [9])) \<and>
    packet_wf sample_packet \<and> 24 + length (pkt_body sample_packet) \<le> length (packet_wire sample_packet @ [9])"
  by (rule packet_decode_encode [where a = False and q = empty_packet])
    (simp_all add: DecodeFlowToPacket_sv_def DecodeFlowToPacket_eq packet_wire_def sample_packet_def)

text \<open>
  C21. The stream decoder is memory safe and total: whatever the bytes are, as long as the
  length it is given does not exceed the memory, it reads inside it, throws nothing, and
  accepts exactly when the header and the body it announces are there.
\<close>

theorem DecodeFlowToPacket_safe:
  assumes "len \<le> length m" "len < 18446744073709551616"
  shows "\<exists>ok p'. DecodeFlowToPacket big (Some m) len (Some p) = Inr (ok, Some p') \<and>
    (ok \<longleftrightarrow> 24 \<le> len \<and> 24 + unat (head_body_length (parse_head m)) \<le> len)"
  using assms by (cases "24 \<le> len") (auto simp: DecodeFlowToPacket_eq DecodeFlowToPacket_short Let_def)

theorem DecodeFlowToPacket_safe_witness:
  "\<exists>ok p'. DecodeFlowToPacket False (Some (packet_wire sample_packet)) 25 (Some empty_packet) = Inr (ok, Some p') \<and>
    (ok \<longleftrightarrow> 24 \<le> (25 :: nat) \<and> 24 + unat (head_body_length (parse_head (packet_wire sample_packet))) \<le> 25)"
  by (rule DecodeFlowToPacket_safe) (simp_all add: packet_wire_def sample_packet_def)

text \<open>
  C19. The request encoder accepts exactly the requests the protocol allows, and the packet it
  builds depends on nothing but the request: the default header with the opcode, an empty
  status and the length of the body, and the body in the documented layout.
\<close>

theorem EncodeKVRequestToPacket_iff:
  "EncodeKVRequestToPacket big (Some rq) (Some p) = Inr (True, p') \<longleftrightarrow>
   request_ok rq \<and> p' = Some (request_packet rq)"
  using EncodeKVRequestToPacket_ok [of rq big p] EncodeKVRequestToPacket_reject [of rq big p]
  by (cases "request_ok rq") auto

text \<open>No encoding of a request is a proper prefix of another with the same opcode.\<close>

lemma request_wire_prefix_free:
  assumes "request_ok rq" "request_ok rq'" "rq_opcode rq' = rq_opcode rq" "request_wire rq @ extra = request_wire rq'"
  shows "extra = []"
proof -
  have len: "length (request_wire rq') = length (request_wire rq) + length extra"
    using arg_cong [OF assms(4), of length] by simp
  have field: "n = m" if "be_bytes 4 (of_nat n :: 32 word) = be_bytes 4 (of_nat m :: 32 word)" "n \<le> 1048576" "m \<le> 1048576" for n m :: nat
  proof -
    have inv: "of_be (be_bytes 4 z) = z" for z :: "32 word" by (rule of_be_be_bytes) simp
    from arg_cong [OF that(1), of "of_be :: bytes \<Rightarrow> 32 word"] have "(of_nat n :: 32 word) = of_nat m" unfolding inv .
    from arg_cong [OF this, of unat] that(2,3) show ?thesis by (simp add: unat_of_nat)
  qed
  consider "rq_opcode rq = kPing" | "rq_opcode rq = kPut" | "rq_opcode rq = kGet \<or> rq_opcode rq = kDel"
    using assms(1) by (auto simp: request_ok_def)
  then show ?thesis
  proof cases
    case 1
    with assms(3) len show ?thesis by (auto simp: request_wire_def)
  next
    case 2
    then show ?thesis using assms len by (auto simp: request_wire_def request_ok_def dest!: field)
  next
    case 3
    then have "length (rq_key rq) = length (rq_key rq')"
      using assms by (intro field) (auto simp: request_wire_def request_ok_def)
    with 3 assms(3) len show ?thesis by (auto simp: request_wire_def)
  qed
qed

text \<open>
  C18. What the request decoder accepts, which is not all that the headers announce. It accepts exactly the packets of type request
  whose header length matches the body and whose body is the encoding of a request with that opcode and within the limits, and
  returns that request, always without extra information. The status of the header is not looked at, so that a
  request with a status other than 0 passes. And a request whose body goes on after the required fields, with the
  length to match, is refused, so that \<open>extrainfo_\<close> cannot be sent.
\<close>

theorem DecodePacketToKVRequest_grammar:
  "(DecodePacketToKVRequest big (Some p) (Some rq0) = Inr (True, Some rq) \<longleftrightarrow>
     head_msg_type (pkt_head p) = kRequest \<and> packet_wf p \<and>
     head_opcode (pkt_head p) = rq_opcode rq \<and> request_norm rq = rq \<and> request_ok rq \<and>
     rq_extrainfo rq = [] \<and> pkt_body p = request_wire rq) \<and>
   DecodePacketToKVRequest big (Some (p\<lparr>pkt_head := (pkt_head p)\<lparr>head_status := s\<rparr>\<rparr>)) (Some rq0) =
     DecodePacketToKVRequest big (Some p) (Some rq0) \<and>
   (request_ok rq \<and> head_opcode (pkt_head p) = rq_opcode rq \<and> pkt_body p = request_wire rq @ extra \<and> extra \<noteq> [] \<longrightarrow>
     (\<forall>rq'. DecodePacketToKVRequest big (Some p) (Some rq0) \<noteq> Inr (True, Some rq')))"
proof -
  have "rq_extrainfo rq = []" if "request_norm rq = rq" using that by (metis KVRequest.select_convs(4) KVRequest.surjective
      KVRequest.update_convs(4) request_norm_def)
  moreover have "DecodePacketToKVRequest big (Some (p\<lparr>pkt_head := (pkt_head p)\<lparr>head_status := s\<rparr>\<rparr>)) (Some rq0) =
     DecodePacketToKVRequest big (Some p) (Some rq0)"
    by (simp add: DecodePacketToKVRequest_def)
  moreover have "False" if "request_ok rq" "request_wire rq @ extra = request_wire rq'" "extra \<noteq> []" "request_ok rq'" "rq_opcode rq' = rq_opcode rq" for rq'
    using request_wire_prefix_free that by blast
  ultimately show ?thesis by (auto simp: DecodePacketToKVRequest_iff) metis
qed

theorem DecodePacketToKVRequest_grammar_witness:
  "DecodePacketToKVRequest False (Some ((request_packet sample_put)\<lparr>pkt_head := (pkt_head (request_packet sample_put))\<lparr>head_status := 5\<rparr>\<rparr>))
     (Some sample_put) = Inr (True, Some (request_norm sample_put)) \<and>
   DecodePacketToKVRequest False (Some \<lparr>pkt_head = (pkt_head (request_packet sample_put))\<lparr>head_body_length := of_nat (length (request_wire sample_put) + 1)\<rparr>,
     pkt_body = request_wire sample_put @ [0]\<rparr>) (Some sample_put) \<noteq> Inr (True, Some sample_put)"
proof -
  have ok: "request_ok sample_put" by (simp add: request_ok_def sample_put_def codec_consts)
  then have "request_ok (request_norm sample_put)" "request_norm (request_norm sample_put) = request_norm sample_put"
    "rq_extrainfo (request_norm sample_put) = []" "rq_opcode (request_norm sample_put) = rq_opcode sample_put" "request_wire (request_norm sample_put) = request_wire sample_put"
    by (auto simp: request_ok_def request_norm_def request_wire_def)
  then show ?thesis
    using DecodePacketToKVRequest_grammar [of False "request_packet sample_put" sample_put "request_norm sample_put" 5 "[]"] packet_wf_request_packet [OF ok]
      DecodePacketToKVRequest_grammar [of False "\<lparr>pkt_head = (pkt_head (request_packet sample_put))\<lparr>head_body_length := of_nat (length (request_wire sample_put) + 1)\<rparr>,
     pkt_body = request_wire sample_put @ [0]\<rparr>" sample_put sample_put 0 "[0]"] ok
    by simp
qed

text \<open>
  C7. A request goes through the whole codec, client to server: encoded to a packet and to
  bytes on one host, decoded to a packet and to a request on another host of any byte order,
  it is the same request, up to the members its opcode does not carry.
\<close>

theorem request_roundtrip:
  assumes "request_ok rq"
  shows "rbind (EncodeKVRequestToPacket a (Some rq) (Some p0)) (\<lambda>(_, p).
    rbind (EncodePacketToFlow_str a p s) (\<lambda>(_, bs).
    rbind (DecodeFlowToPacket_sv b bs (Some p1)) (\<lambda>(_, p).
    DecodePacketToKVRequest b p (Some rq0)))) = Inr (True, Some (request_norm rq))"
proof -
  have "request_ok (request_norm rq)" "request_norm (request_norm rq) = request_norm rq"
    "rq_opcode (request_norm rq) = rq_opcode rq" "request_wire (request_norm rq) = request_wire rq"
    using assms by (auto simp: request_ok_def request_norm_def request_wire_def)
  with packet_wf_request_packet [OF assms]
  have "DecodePacketToKVRequest b (Some (request_packet rq)) (Some rq0) = Inr (True, Some (request_norm rq))"
    by (simp add: DecodePacketToKVRequest_iff)
  then show ?thesis
    using assms by (simp add: EncodeKVRequestToPacket_ok packet_wf_request_packet EncodePacketToFlow_wf
        DecodeFlowToPacket_wire_only)
qed

theorem request_roundtrip_witness:
  "rbind (EncodeKVRequestToPacket False (Some sample_put) (Some empty_packet)) (\<lambda>(_, p).
    rbind (EncodePacketToFlow_str False p []) (\<lambda>(_, bs).
    rbind (DecodeFlowToPacket_sv True bs (Some empty_packet)) (\<lambda>(_, p).
    DecodePacketToKVRequest True p (Some sample_put)))) = Inr (True, Some (request_norm sample_put))"
  by (rule request_roundtrip) (simp add: request_ok_def sample_put_def codec_consts)

text \<open>
  C22. A response goes through the whole codec, server to client, for every opcode and
  status: the status, and the value of a successful GET, arrive unchanged.
\<close>

theorem response_roundtrip:
  assumes "response_ok rs op"
  shows "rbind (EncodeKVResponseToPacket a (Some rs) op rid (Some p0)) (\<lambda>(_, p).
    rbind (EncodePacketToFlow_str a p s) (\<lambda>(_, bs).
    rbind (DecodeFlowToPacket_sv b bs (Some p1)) (\<lambda>(_, p).
    DecodePacketToKVResponse b p (Some rs0)))) = Inr (True, Some (response_norm rs op))"
  using assms by (simp add: EncodeKVResponseToPacket_ok packet_wf_response_packet EncodePacketToFlow_wf
      DecodeFlowToPacket_wire_only DecodePacketToKVResponse_response_packet)

theorem response_roundtrip_witness:
  "rbind (EncodeKVResponseToPacket True (Some \<lparr>rs_status = 0, rs_key = [1], rs_value = [2], rs_extrainfo = [3]\<rparr>) kGet 5 (Some empty_packet)) (\<lambda>(_, p).
    rbind (EncodePacketToFlow_str True p []) (\<lambda>(_, bs).
    rbind (DecodeFlowToPacket_sv False bs (Some empty_packet)) (\<lambda>(_, p).
    DecodePacketToKVResponse False p (Some \<lparr>rs_status = 9, rs_key = [], rs_value = [], rs_extrainfo = []\<rparr>))))
   = Inr (True, Some (response_norm \<lparr>rs_status = 0, rs_key = [1], rs_value = [2], rs_extrainfo = [3]\<rparr> kGet))"
  by (rule response_roundtrip) (simp add: response_ok_def)

end
