(* ===== verification/KV_Store.thy ===== *)
theory KV_Store
  imports KV_Protocol
begin

text \<open>
  \<open>adachi::network::kv::KVStore\<close> (\<^verbatim>\<open>include/kv/kvstore.h\<close>, \<^verbatim>\<open>src/kv/kvstore.cpp\<close>): the
  table the service answers from. Every operation holds \<open>mtx_\<close> from its first access to the
  table to its return, so that concurrent calls are equivalent to some sequence of calls; an
  interleaving of several connections is therefore a list of operations tagged with the
  connection they come from.
\<close>

section \<open>State and operations\<close>

record KVStore =
  kv_mp :: "bytes \<rightharpoonup> bytes"

definition KVStore_new :: KVStore where
  "KVStore_new = \<lparr>kv_mp = Map.empty\<rparr>"

definition KVStore_Get :: "KVStore \<Rightarrow> KVRequest option \<Rightarrow> KVResponse option \<Rightarrow> KVStore \<times> KVResponse option" where
  "KVStore_Get st request response =
     (case request of None \<Rightarrow> (st, response)
      | Some rq \<Rightarrow> (case response of None \<Rightarrow> (st, response)
        | Some rs \<Rightarrow>
           let rs = rs\<lparr>rs_key := rq_key rq, rs_extrainfo := []\<rparr>
           in (case kv_mp st (rq_key rq) of
                 None \<Rightarrow> (st, Some (rs\<lparr>rs_status := kNotFound, rs_value := []\<rparr>))
               | Some v \<Rightarrow> (st, Some (rs\<lparr>rs_status := kOk, rs_value := v\<rparr>)))))"

definition KVStore_Put :: "KVStore \<Rightarrow> KVRequest option \<Rightarrow> KVResponse option \<Rightarrow> KVStore \<times> KVResponse option" where
  "KVStore_Put st request response =
     (case request of None \<Rightarrow> (st, response)
      | Some rq \<Rightarrow> (case response of None \<Rightarrow> (st, response)
        | Some rs \<Rightarrow>
           (st\<lparr>kv_mp := (kv_mp st)(rq_key rq \<mapsto> rq_value rq)\<rparr>,
            Some (rs\<lparr>rs_status := kOk, rs_key := rq_key rq, rs_value := [], rs_extrainfo := []\<rparr>))))"

definition KVStore_Del :: "KVStore \<Rightarrow> KVRequest option \<Rightarrow> KVResponse option \<Rightarrow> KVStore \<times> KVResponse option" where
  "KVStore_Del st request response =
     (case request of None \<Rightarrow> (st, response)
      | Some rq \<Rightarrow> (case response of None \<Rightarrow> (st, response)
        | Some rs \<Rightarrow>
           (st\<lparr>kv_mp := (kv_mp st)(rq_key rq := None)\<rparr>,
            Some (rs\<lparr>rs_key := rq_key rq, rs_value := [], rs_extrainfo := [],
                     rs_status := if kv_mp st (rq_key rq) = None then kNotFound else kOk\<rparr>))))"

section \<open>The table as an abstract object\<close>

text \<open>
  An operation on the table, its effect on an abstract map and the answer it gets: the
  specification the store is compared with. \<open>run_ops\<close> is a sequence of atomic operations,
  whichever connections they come from.
\<close>

datatype kv_op = OpGet bytes | OpPut bytes bytes | OpDel bytes

datatype kv_answer = Found bytes | Missing | Done

primrec op_key :: "kv_op \<Rightarrow> bytes" where
  "op_key (OpGet k) = k"
| "op_key (OpPut k v) = k"
| "op_key (OpDel k) = k"

primrec spec_step :: "(bytes \<rightharpoonup> bytes) \<Rightarrow> kv_op \<Rightarrow> (bytes \<rightharpoonup> bytes) \<times> kv_answer" where
  "spec_step m (OpGet k) = (m, case m k of None \<Rightarrow> Missing | Some v \<Rightarrow> Found v)"
| "spec_step m (OpPut k v) = (m(k \<mapsto> v), Done)"
| "spec_step m (OpDel k) = (m(k := None), if m k = None then Missing else Done)"

fun run_ops :: "('s \<Rightarrow> kv_op \<Rightarrow> 's \<times> 'a) \<Rightarrow> 's \<Rightarrow> ('c \<times> kv_op) list \<Rightarrow> 's \<times> ('c \<times> 'a) list" where
  "run_ops f s [] = (s, [])"
| "run_ops f s (x # qs) = (let (s', a) = f s (snd x); (s'', as) = run_ops f s' qs in (s'', (fst x, a) # as))"

text \<open>The value a history leaves under a key: that of the last PUT no DEL follows.\<close>

fun last_value :: "kv_op list \<Rightarrow> bytes \<rightharpoonup> bytes" where
  "last_value [] k = None"
| "last_value (q # qs) k = (case q of
     OpGet k' \<Rightarrow> last_value qs k
   | OpPut k' v \<Rightarrow> if k' = k then Some v else last_value qs k
   | OpDel k' \<Rightarrow> if k' = k then None else last_value qs k)"

text \<open>One call of the store, as the service makes it, and the response it fills in.\<close>

definition store_request :: "kv_op \<Rightarrow> KVRequest" where
  "store_request q = (case q of
     OpGet k \<Rightarrow> \<lparr>rq_opcode = kGet, rq_key = k, rq_value = [], rq_extrainfo = []\<rparr>
   | OpPut k v \<Rightarrow> \<lparr>rq_opcode = kPut, rq_key = k, rq_value = v, rq_extrainfo = []\<rparr>
   | OpDel k \<Rightarrow> \<lparr>rq_opcode = kDel, rq_key = k, rq_value = [], rq_extrainfo = []\<rparr>)"

definition store_call :: "KVResponse \<Rightarrow> KVStore \<Rightarrow> kv_op \<Rightarrow> KVStore \<times> KVResponse option" where
  "store_call rs0 st q = (case q of
     OpGet _ \<Rightarrow> KVStore_Get st (Some (store_request q)) (Some rs0)
   | OpPut _ _ \<Rightarrow> KVStore_Put st (Some (store_request q)) (Some rs0)
   | OpDel _ \<Rightarrow> KVStore_Del st (Some (store_request q)) (Some rs0))"

definition answer_response :: "kv_op \<Rightarrow> kv_answer \<Rightarrow> KVResponse" where
  "answer_response q a = \<lparr>rs_status = (if a = Missing then kNotFound else kOk), rs_key = op_key q,
     rs_value = (case a of Found v \<Rightarrow> v | _ \<Rightarrow> []), rs_extrainfo = []\<rparr>"

section \<open>Histories, for any implementation of the table\<close>

lemma spec_step_other: "op_key q \<noteq> k \<Longrightarrow> fst (spec_step m q) k = m k"
  by (cases q) auto

lemma spec_step_local: "m (op_key q) = m' (op_key q) \<Longrightarrow>
  snd (spec_step m q) = snd (spec_step m' q) \<and>
  fst (spec_step m q) (op_key q) = fst (spec_step m' q) (op_key q)"
  by (cases q) auto

lemma run_ops_snoc: "fst (run_ops f s (qs @ [x])) = fst (f (fst (run_ops f s qs)) (snd x))"
  by (induction qs arbitrary: s) (auto simp: split_beta Let_def)

lemma spec_run_last_value:
  "fst (run_ops spec_step m qs) k = (if \<exists>q \<in> set (map snd qs). op_key q = k \<and> (\<forall>k'. q \<noteq> OpGet k')
     then last_value (rev (map snd qs)) k else m k)"
proof (induction qs rule: rev_induct)
  case Nil
  then show ?case by simp
next
  case (snoc x qs)
  then show ?case
    by (cases "snd x") (auto simp: run_ops_snoc)
qed

locale kv_table =
  fixes abs :: "'s \<Rightarrow> (bytes \<rightharpoonup> bytes)"
    and call :: "'s \<Rightarrow> kv_op \<Rightarrow> 's \<times> 'r"
    and answer :: "kv_op \<Rightarrow> kv_answer \<Rightarrow> 'r"
    and init :: 's
  assumes init_law: "abs init = Map.empty"
    and call_state: "abs (fst (call s q)) = fst (spec_step (abs s) q)"
    and call_answer: "snd (call s q) = answer q (snd (spec_step (abs s) q))"
begin

lemma refines:
  "abs (fst (run_ops call s qs)) = fst (run_ops spec_step (abs s) qs) \<and>
   snd (run_ops call s qs) =
     map (\<lambda>((c, q), (_, a)). (c, answer q a)) (zip qs (snd (run_ops spec_step (abs s) qs)))"
proof (induction qs arbitrary: s)
  case Nil
  then show ?case by simp
next
  case (Cons x qs)
  obtain c q where x: "x = (c, q)" by fastforce
  with Cons.IH [of "fst (call s q)"] show ?case
    by (simp add: split_beta Let_def call_state call_answer)
qed

lemma get_last_value:
  "snd (call (fst (run_ops call init qs)) (OpGet k)) =
     answer (OpGet k) (case last_value (rev (map snd qs)) k of None \<Rightarrow> Missing | Some v \<Rightarrow> Found v)"
proof -
  have none: "last_value qs' k = None"
    if "\<not> (\<exists>q \<in> set qs'. op_key q = k \<and> (\<forall>k'. q \<noteq> OpGet k'))" for qs'
    using that by (induction qs') (auto split: kv_op.splits)
  have "abs (fst (run_ops call init qs)) k = last_value (rev (map snd qs)) k"
    using refines [of init qs] spec_run_last_value [of Map.empty qs k] none [of "rev (map snd qs)"]
    by (simp add: init_law split: if_splits)
  then show ?thesis
    by (simp add: call_answer)
qed

text \<open>Operations of other connections on other keys are invisible.\<close>

lemma non_interference:
  assumes "\<forall>k \<in> K. abs s k = abs s' k" "\<forall>(d, q) \<in> set qs. (op_key q \<in> K) = (d = c)"
  shows "filter (\<lambda>(d, _). d = c) (snd (run_ops call s qs)) =
    snd (run_ops call s' (filter (\<lambda>(d, _). d = c) qs))"
  using assms
proof (induction qs arbitrary: s s')
  case Nil
  then show ?case by simp
next
  case (Cons x qs)
  obtain d q where x: "x = (d, q)" by fastforce
  show ?case
  proof (cases "d = c")
    case True
    have k: "op_key q \<in> K" using Cons.prems x True by auto
    have "\<forall>k \<in> K. abs (fst (call s q)) k = abs (fst (call s' q)) k"
    proof
      fix k assume "k \<in> K"
      then show "abs (fst (call s q)) k = abs (fst (call s' q)) k"
        using Cons.prems(1) k spec_step_local [of "abs s" q "abs s'"] spec_step_other [of q k]
        by (cases "k = op_key q") (auto simp: call_state)
    qed
    moreover have "snd (call s q) = snd (call s' q)"
      using Cons.prems(1) k spec_step_local [of "abs s" q "abs s'"] by (simp add: call_answer)
    ultimately show ?thesis
      using Cons.IH [of "fst (call s q)" "fst (call s' q)"] Cons.prems(2) x True
      by (simp add: split_beta Let_def)
  next
    case False
    then have "op_key q \<notin> K" using Cons.prems x by auto
    then have "\<forall>k \<in> K. abs (fst (call s q)) k = abs s' k"
      using Cons.prems(1) by (metis call_state spec_step_other)
    then show ?thesis
      using Cons.IH [of "fst (call s q)" s'] Cons.prems(2) x False
      by (simp add: split_beta Let_def)
  qed
qed

end

lemma KVStore_eta [simp]: "\<lparr>kv_mp = kv_mp st\<rparr> = (st :: KVStore)"
  by (cases st) simp

lemma store_call_eq:
  "store_call rs0 st q = (\<lparr>kv_mp = fst (spec_step (kv_mp st) q)\<rparr>,
     Some (answer_response q (snd (spec_step (kv_mp st) q))))"
  by (cases st; cases rs0; cases q)
    (auto simp: store_call_def store_request_def KVStore_Get_def KVStore_Put_def KVStore_Del_def
      answer_response_def split: option.splits)

interpretation ks: kv_table kv_mp "store_call rs0" "\<lambda>q a. Some (answer_response q a)" KVStore_new for rs0
  by unfold_locales (simp_all add: KVStore_new_def store_call_eq)

section \<open>Properties\<close>

text \<open>
  C11. After any history of operations on a fresh store, from any connections, GET answers
  with the value of the last PUT of that key if no DEL of it came later, with status OK, and
  otherwise with status NOT_FOUND and an empty value; nothing of the response object's
  previous contents shows.
\<close>

theorem KVStore_get_last_put:
  "snd (store_call rs0 (fst (run_ops (store_call rs0) KVStore_new qs)) (OpGet k)) =
     Some (case last_value (rev (map snd qs)) k of
       None \<Rightarrow> \<lparr>rs_status = kNotFound, rs_key = k, rs_value = [], rs_extrainfo = []\<rparr>
     | Some v \<Rightarrow> \<lparr>rs_status = kOk, rs_key = k, rs_value = v, rs_extrainfo = []\<rparr>)"
  by (simp add: ks.get_last_value answer_response_def split: option.splits)

text \<open>
  C23. The store refines the abstract table: under any interleaving of atomic operations the
  responses of the three member functions are those of the specification, in order, and the
  table agrees with it afterwards.
\<close>

theorem KVStore_refines_table:
  "kv_mp (fst (run_ops (store_call rs0) st qs)) = fst (run_ops spec_step (kv_mp st) qs) \<and>
   snd (run_ops (store_call rs0) st qs) =
     map (\<lambda>((c, q), (_, a)). (c, Some (answer_response q a))) (zip qs (snd (run_ops spec_step (kv_mp st) qs)))"
  by (rule ks.refines)

text \<open>
  C24. Connections that work on keys of their own do not interfere: in every interleaving the
  responses a connection sees are those it would get alone.
\<close>

theorem KVStore_non_interference:
  assumes "\<forall>(d, q) \<in> set qs. (op_key q \<in> K) = (d = c)"
  shows "filter (\<lambda>(d, _). d = c) (snd (run_ops (store_call rs0) st qs)) =
    snd (run_ops (store_call rs0) st (filter (\<lambda>(d, _). d = c) qs))"
  by (rule ks.non_interference [where K = K]) (use assms in simp_all)

theorem KVStore_non_interference_witness:
  "filter (\<lambda>(d, _). d = (1 :: nat)) (snd (run_ops (store_call \<lparr>rs_status = 9, rs_key = [], rs_value = [], rs_extrainfo = []\<rparr>) KVStore_new
      [(1, OpPut [1] [5]), (2, OpPut [2] [6]), (2, OpDel [2]), (1, OpGet [1])])) =
    snd (run_ops (store_call \<lparr>rs_status = 9, rs_key = [], rs_value = [], rs_extrainfo = []\<rparr>) KVStore_new (filter (\<lambda>(d, _). d = 1)
      [(1, OpPut [1] [5]), (2, OpPut [2] [6]), (2, OpDel [2]), (1, OpGet [1])]))"
  by (rule KVStore_non_interference [where K = "{[1]}"]) simp

end
