(* ===== verification/KV_Service.thy ===== *)
theory KV_Service
  imports Net_Buffer KV_Store
begin

text \<open>
  \<open>adachi::network::kv::KVService\<close> (\<^verbatim>\<open>include/kv/kvservice.h\<close>, \<^verbatim>\<open>src/kv/kvservice.cpp\<close>): the
  four hooks a server calls on a connection's input buffer, their defaults, and the handler
  that executes a request on the store and builds the response. A \<open>void*\<close> argument is the
  \<open>Packet*\<close> every caller passes.
\<close>

section \<open>State and hooks\<close>

text \<open>
  What a handler finds on the machine it runs on: the byte order, and the indeterminate
  contents of the scalar members of a local \<open>Packet\<close>, \<open>KVRequest\<close> or \<open>KVResponse\<close>, whose
  strings start empty.
\<close>

record Host =
  host_big :: bool
  host_head :: PacketHead
  host_word :: "16 word"

definition local_packet :: "Host \<Rightarrow> Packet" where
  "local_packet hw = \<lparr>pkt_head = host_head hw, pkt_body = []\<rparr>"

definition local_request :: "Host \<Rightarrow> KVRequest" where
  "local_request hw = \<lparr>rq_opcode = host_word hw, rq_key = [], rq_value = [], rq_extrainfo = []\<rparr>"

type_synonym buffer_hook = "Buffer \<Rightarrow> (bool \<times> Buffer) res"
type_synonym body_hook = "Buffer \<Rightarrow> Packet option \<Rightarrow> (bool \<times> Buffer \<times> Packet option) res"
type_synonym echo_hook =
  "Buffer \<Rightarrow> Packet option \<Rightarrow> Packet option \<Rightarrow> (bool \<times> Buffer \<times> Packet option \<times> Packet option) res"

record KVService =
  sv_headcheck :: buffer_hook
  sv_shouldget :: buffer_hook
  sv_bodycheck :: body_hook
  sv_shouldecho :: echo_hook
  sv_kvstore :: KVStore

definition IsSupportedOpcode :: "16 word \<Rightarrow> bool" where
  "IsSupportedOpcode opcode \<longleftrightarrow> opcode = kPing \<or> opcode = kPut \<or> opcode = kGet \<or> opcode = kDel"

definition kDefaultHeadCheck :: "Host \<Rightarrow> buffer_hook" where
  "kDefaultHeadCheck hw buffer =
     (if Buffer_Size buffer < sizeof_PacketHead then Inr (False, buffer)
      else rbind (DecodeFlowToPacket (host_big hw) (Some (CReadData buffer)) sizeof_PacketHead
                    (Some (local_packet hw))) (\<lambda>(ok, packet).
        if \<not> ok then Inr (True, buffer)
        else case packet of None \<Rightarrow> Inl UB
        | Some p \<Rightarrow> Inr (head_magic (pkt_head p) \<noteq> kDefaultMagic
            \<or> head_version (pkt_head p) \<noteq> kDefaultVersion
            \<or> head_msg_type (pkt_head p) \<noteq> kRequest
            \<or> head_body_length (pkt_head p) > kMaxBodyLength, buffer)))"

definition kDefaultShouldGet :: "Host \<Rightarrow> buffer_hook" where
  "kDefaultShouldGet hw buffer =
     (if Buffer_Size buffer < sizeof_PacketHead then Inr (False, buffer)
      else rbind (DecodeFlowToPacket (host_big hw) (Some (CReadData buffer)) sizeof_PacketHead
                    (Some (local_packet hw))) (\<lambda>(ok, packet).
        if \<not> ok then Inr (False, buffer)
        else case packet of None \<Rightarrow> Inl UB
        | Some p \<Rightarrow> Inr (Buffer_Size buffer \<ge> usz (sizeof_PacketHead + unat (head_body_length (pkt_head p))), buffer)))"

definition kDefaultBodyCheck :: "Host \<Rightarrow> body_hook" where
  "kDefaultBodyCheck hw buffer result =
     (case result of None \<Rightarrow> Inr (False, buffer, result)
      | Some packet0 \<Rightarrow>
        if Buffer_Size buffer < sizeof_PacketHead then Inr (False, buffer, result)
        else rbind (DecodeFlowToPacket (host_big hw) (Some (CReadData buffer)) sizeof_PacketHead
                      (Some (local_packet hw))) (\<lambda>(ok, packet_head).
          if \<not> ok then Inr (False, buffer, result)
          else case packet_head of None \<Rightarrow> Inl UB
          | Some ph \<Rightarrow>
            let total_length = usz (sizeof_PacketHead + unat (head_body_length (pkt_head ph))) in
            if Buffer_Size buffer < total_length then Inr (False, buffer, result)
            else rbind (ReadBuffer buffer total_length) (\<lambda>(raw, buffer).
              rbind (DecodeFlowToPacket_sv (host_big hw) raw result) (\<lambda>(ok, result).
              if \<not> ok then Inr (False, buffer, result)
              else case result of None \<Rightarrow> Inl UB
              | Some packet \<Rightarrow>
                let mark = (\<lambda>s. Some (packet\<lparr>pkt_head := (pkt_head packet)\<lparr>head_status := s\<rparr>\<rparr>)) in
                if \<not> IsSupportedOpcode (head_opcode (pkt_head packet))
                then Inr (True, buffer, mark kUnsupportedOpcode)
                else rbind (DecodePacketToKVRequest (host_big hw) (Some packet) (Some (local_request hw))) (\<lambda>(ok, _).
                  Inr (True, buffer, if ok then Some packet else mark kBadRequest))))))"

definition kDefaultShouldEcho :: echo_hook where
  "kDefaultShouldEcho buffer result echo = Inr (result \<noteq> None \<and> echo \<noteq> None, buffer, result, echo)"

definition KVService_new :: "buffer_hook \<Rightarrow> buffer_hook \<Rightarrow> body_hook \<Rightarrow> echo_hook \<Rightarrow> KVService" where
  "KVService_new headcheck shouldget bodycheck shouldecho =
     \<lparr>sv_headcheck = headcheck, sv_shouldget = shouldget, sv_bodycheck = bodycheck,
      sv_shouldecho = shouldecho, sv_kvstore = KVStore_new\<rparr>"

definition KVService_default :: "Host \<Rightarrow> KVService" where
  "KVService_default hw = KVService_new (kDefaultHeadCheck hw) (kDefaultShouldGet hw)
     (kDefaultBodyCheck hw) kDefaultShouldEcho"

definition HeadCheck :: "KVService \<Rightarrow> buffer_hook" where
  "HeadCheck sv buffer = sv_headcheck sv buffer"

definition ShouldGet :: "KVService \<Rightarrow> buffer_hook" where
  "ShouldGet sv buffer = sv_shouldget sv buffer"

definition BodyCheck :: "KVService \<Rightarrow> body_hook" where
  "BodyCheck sv buffer result = sv_bodycheck sv buffer result"

section \<open>Executing a request\<close>

text \<open>The \<open>switch\<close> on the opcode of a decoded request.\<close>

definition dispatch :: "KVService \<Rightarrow> KVRequest \<Rightarrow> KVResponse \<Rightarrow> KVService \<times> KVResponse" where
  "dispatch sv request response =
     (let op = rq_opcode request;
          stored = (\<lambda>(st, rs). (sv\<lparr>sv_kvstore := st\<rparr>, case rs of Some r \<Rightarrow> r | None \<Rightarrow> response))
      in if op = kPing then (sv, response\<lparr>rs_status := kOk\<rparr>)
         else if op = kPut then stored (KVStore_Put (sv_kvstore sv) (Some request) (Some response))
         else if op = kGet then stored (KVStore_Get (sv_kvstore sv) (Some request) (Some response))
         else if op = kDel then stored (KVStore_Del (sv_kvstore sv) (Some request) (Some response))
         else (sv, response\<lparr>rs_status := kUnsupportedOpcode\<rparr>))"

definition execute :: "Host \<Rightarrow> KVService \<Rightarrow> Packet \<Rightarrow> (KVService \<times> KVResponse) res" where
  "execute hw sv rp =
     (let response = \<lparr>rs_status = head_status (pkt_head rp), rs_key = [], rs_value = [],
                      rs_extrainfo = []\<rparr>
      in if head_status (pkt_head rp) \<noteq> kOk then Inr (sv, response)
         else rbind (DecodePacketToKVRequest (host_big hw) (Some rp) (Some (local_request hw))) (\<lambda>(ok, request).
           if \<not> ok then Inr (sv, response\<lparr>rs_status := kBadRequest\<rparr>)
           else case request of None \<Rightarrow> Inl UB | Some rq \<Rightarrow> Inr (dispatch sv rq response)))"

definition ShouldEcho ::
  "Host \<Rightarrow> KVService \<Rightarrow> Buffer \<Rightarrow> Packet option \<Rightarrow> Packet option \<Rightarrow>
   (bool \<times> KVService \<times> Buffer \<times> Packet option \<times> Packet option) res" where
  "ShouldEcho hw sv buffer result echo =
     rbind (sv_shouldecho sv buffer result echo) (\<lambda>(ok, buffer, result, echo).
     if \<not> ok then Inr (False, sv, buffer, result, echo)
     else case result of None \<Rightarrow> Inr (False, sv, buffer, result, echo)
     | Some rp \<Rightarrow> (case echo of None \<Rightarrow> Inr (False, sv, buffer, result, echo)
       | Some _ \<Rightarrow>
         rbind (execute hw sv rp) (\<lambda>(sv, response).
         rbind (EncodeKVResponseToPacket (host_big hw) (Some response) (head_opcode (pkt_head rp))
                  (head_request_id (pkt_head rp)) echo) (\<lambda>(ok, echo).
         if \<not> ok then
           rbind (EncodeKVResponseToPacket (host_big hw)
                    (Some \<lparr>rs_status = kInternalError, rs_key = [], rs_value = [], rs_extrainfo = []\<rparr>)
                    (head_opcode (pkt_head rp)) (head_request_id (pkt_head rp)) echo) (\<lambda>(ok, echo).
           Inr (ok, sv, buffer, result, echo))
         else Inr (True, sv, buffer, result, echo)))))"

section \<open>What a request packet means\<close>

text \<open>
  The specification of the handler, over the abstract table: the response to a packet that
  the checks let through. \<open>request_of\<close> reads the request back from the body by the
  grammar of the protocol, which fixes it uniquely.
\<close>

definition request_of :: "Packet \<Rightarrow> KVRequest option" where
  "request_of p = (case DecodePacketToKVRequest True (Some p)
       (Some \<lparr>rq_opcode = 0, rq_key = [], rq_value = [], rq_extrainfo = []\<rparr>) of
     Inr (True, r) \<Rightarrow> r | _ \<Rightarrow> None)"

definition plain_response :: "16 word \<Rightarrow> KVResponse" where
  "plain_response s = \<lparr>rs_status = s, rs_key = [], rs_value = [], rs_extrainfo = []\<rparr>"

definition request_op :: "KVRequest \<Rightarrow> kv_op option" where
  "request_op rq = (if rq_opcode rq = kPut then Some (OpPut (rq_key rq) (rq_value rq))
     else if rq_opcode rq = kGet then Some (OpGet (rq_key rq))
     else if rq_opcode rq = kDel then Some (OpDel (rq_key rq)) else None)"

definition spec_execute :: "(bytes \<rightharpoonup> bytes) \<Rightarrow> Packet \<Rightarrow> (bytes \<rightharpoonup> bytes) \<times> KVResponse" where
  "spec_execute m p =
     (if head_status (pkt_head p) \<noteq> kOk then (m, plain_response (head_status (pkt_head p)))
      else case request_of p of
        None \<Rightarrow> (m, plain_response kBadRequest)
      | Some rq \<Rightarrow> (case request_op rq of
          None \<Rightarrow> (m, plain_response kOk)
        | Some q \<Rightarrow> (let (m', a) = spec_step m q in (m', answer_response q a))))"

text \<open>Values that came in through PUT fit the value limit, so that GET can send them back.\<close>

definition store_ok :: "KVStore \<Rightarrow> bool" where
  "store_ok st \<longleftrightarrow> (\<forall>v \<in> ran (kv_mp st). length v \<le> 1048576)"

lemma request_of_iff:
  "request_of p = Some rq \<longleftrightarrow> head_msg_type (pkt_head p) = kRequest \<and> packet_wf p \<and>
     head_opcode (pkt_head p) = rq_opcode rq \<and> request_norm rq = rq \<and> request_ok rq \<and>
     pkt_body p = request_wire rq"
  unfolding DecodePacketToKVRequest_iff [of True p "\<lparr>rq_opcode = 0, rq_key = [], rq_value = [], rq_extrainfo = []\<rparr>",
      symmetric] request_of_def
  by (auto split: sum.splits prod.splits bool.splits)

lemma DecodePacketToKVRequest_total:
  "\<exists>ok rq. DecodePacketToKVRequest big (Some p) (Some rq0) = Inr (ok, Some rq) \<and>
     (if ok then request_of p = Some rq else request_of p = None)"
proof -
  have "\<exists>ok rq. DecodePacketToKVRequest big (Some p) (Some rq0) = Inr (ok, Some rq)"
  proof (cases "packet_wf p")
    case True
    then show ?thesis
      using decode_request_body_total [OF packet_wf_bound [OF True], of big
        "rq0\<lparr>rq_opcode := head_opcode (pkt_head p), rq_key := [], rq_value := [], rq_extrainfo := []\<rparr>"]
      by (auto simp: DecodePacketToKVRequest_def)
  qed (auto simp: DecodePacketToKVRequest_def packet_wf_def)
  then obtain ok rq where *: "DecodePacketToKVRequest big (Some p) (Some rq0) = Inr (ok, Some rq)"
    by blast
  have "request_of p = Some rq' \<longleftrightarrow> DecodePacketToKVRequest big (Some p) (Some rq0) = Inr (True, Some rq')" for rq'
    by (simp add: request_of_iff DecodePacketToKVRequest_iff)
  with * show ?thesis
    by (cases "request_of p") auto
qed

lemma dispatch_eq:
  assumes "request_ok rq" "request_norm rq = rq"
  shows "dispatch sv rq (plain_response s) = (case request_op rq of
      None \<Rightarrow> (sv, plain_response kOk)
    | Some q \<Rightarrow> (sv\<lparr>sv_kvstore := \<lparr>kv_mp = fst (spec_step (kv_mp (sv_kvstore sv)) q)\<rparr>\<rparr>,
        answer_response q (snd (spec_step (kv_mp (sv_kvstore sv)) q))))"
proof -
  have "sv_kvstore sv = \<lparr>kv_mp = kv_mp (sv_kvstore sv)\<rparr>"
    by simp
  then have same: "sv\<lparr>sv_kvstore := \<lparr>kv_mp = kv_mp (sv_kvstore sv)\<rparr>\<rparr> = sv"
    by simp
  show ?thesis
    using assms same
    by (cases sv) (auto simp: dispatch_def request_op_def plain_response_def KVStore_Put_def KVStore_Get_def
        KVStore_Del_def answer_response_def request_ok_def split: option.splits)
qed

lemma execute_eq:
  "execute hw sv p = Inr (sv\<lparr>sv_kvstore := \<lparr>kv_mp = fst (spec_execute (kv_mp (sv_kvstore sv)) p)\<rparr>\<rparr>,
     snd (spec_execute (kv_mp (sv_kvstore sv)) p))"
proof -
  obtain ok rq where d: "DecodePacketToKVRequest (host_big hw) (Some p) (Some (local_request hw)) = Inr (ok, Some rq)"
    "if ok then request_of p = Some rq else request_of p = None"
    using DecodePacketToKVRequest_total by blast
  have "request_ok rq \<and> request_norm rq = rq" if ok
    using d(2) that by (auto simp: request_of_iff)
  then show ?thesis
    using d by (cases sv; cases "sv_kvstore sv"; cases ok)
      (auto simp: execute_def spec_execute_def dispatch_eq [unfolded plain_response_def] plain_response_def split_beta Let_def
        split: option.splits)
qed

section \<open>The echo handler\<close>

lemma spec_step_small:
  assumes "\<forall>v \<in> ran m. length v \<le> 1048576" "\<forall>k v. q = OpPut k v \<longrightarrow> length v \<le> 1048576"
  shows "\<forall>v \<in> ran (fst (spec_step m q)). length v \<le> 1048576"
  using assms by (cases q) (auto simp: ran_def)

lemma spec_execute_small:
  assumes "\<forall>v \<in> ran m. length v \<le> 1048576"
  shows "\<forall>v \<in> ran (fst (spec_execute m p)). length v \<le> 1048576"
proof -
  have "\<forall>v \<in> ran (fst (spec_step m q)). length v \<le> 1048576"
    if "request_of p = Some rq" "request_op rq = Some q" for rq q
    using assms that
    by (intro spec_step_small) (auto simp: request_of_iff request_op_def request_ok_def split: if_splits)
  with assms show ?thesis
    by (simp add: spec_execute_def split_beta Let_def split: option.splits)
qed

lemma spec_execute_response_ok:
  assumes "\<forall>v \<in> ran m. length v \<le> 1048576"
  shows "response_ok (snd (spec_execute m p)) op"
proof -
  have "length (rs_value (snd (spec_execute m p))) \<le> 1048576"
  proof -
    have "length (rs_value (answer_response q (snd (spec_step m q)))) \<le> 1048576" for q
      using assms by (cases q) (auto simp: answer_response_def ran_def split: option.splits)
    then show ?thesis
      by (auto simp: spec_execute_def plain_response_def split_beta Let_def split: option.splits)
  qed
  then show ?thesis by (simp add: response_ok_def)
qed

definition reply_packet :: "(bytes \<rightharpoonup> bytes) \<Rightarrow> Packet \<Rightarrow> Packet" where
  "reply_packet m p = response_packet (snd (spec_execute m p)) (head_opcode (pkt_head p)) (head_request_id (pkt_head p))"

definition with_map :: "KVService \<Rightarrow> (bytes \<rightharpoonup> bytes) \<Rightarrow> KVService" where
  "with_map sv m = sv\<lparr>sv_kvstore := \<lparr>kv_mp = m\<rparr>\<rparr>"

abbreviation sv_map :: "KVService \<Rightarrow> bytes \<rightharpoonup> bytes" where
  "sv_map sv \<equiv> kv_mp (sv_kvstore sv)"

lemma with_map_simps [simp]:
  "sv_map (with_map sv m) = m" "sv_headcheck (with_map sv m) = sv_headcheck sv"
  "sv_shouldget (with_map sv m) = sv_shouldget sv" "sv_bodycheck (with_map sv m) = sv_bodycheck sv"
  "sv_shouldecho (with_map sv m) = sv_shouldecho sv" "with_map (with_map sv m) m' = with_map sv m'"
  "with_map sv (sv_map sv) = sv"
  by (simp_all add: with_map_def)

lemma ShouldEcho_eq:
  assumes "sv_shouldecho sv = kDefaultShouldEcho" "store_ok (sv_kvstore sv)"
  shows "ShouldEcho hw sv b (Some p) (Some e) =
    Inr (True, with_map sv (fst (spec_execute (sv_map sv) p)), b, Some p, Some (reply_packet (sv_map sv) p))"
  using assms spec_execute_response_ok [of "sv_map sv" p]
  by (simp add: ShouldEcho_def kDefaultShouldEcho_def execute_eq EncodeKVResponseToPacket_ok store_ok_def
      reply_packet_def with_map_def)

lemma packet_wf_reply:
  "\<forall>v \<in> ran m. length v \<le> 1048576 \<Longrightarrow> packet_wf (reply_packet m p)"
  by (simp add: reply_packet_def packet_wf_response_packet spec_execute_response_ok)

section \<open>The default hooks on the bytes of a buffer\<close>

text \<open>What the hooks decide about the input: close, wait for more, or take a packet whose body has \<open>n\<close> bytes.\<close>

datatype verdict = Reject | Wait | Take Packet nat

text \<open>The status the body check writes into a packet it takes.\<close>

definition checked :: "Packet \<Rightarrow> Packet" where
  "checked p = (let mark = (\<lambda>s. p\<lparr>pkt_head := (pkt_head p)\<lparr>head_status := s\<rparr>\<rparr>) in
     if \<not> IsSupportedOpcode (head_opcode (pkt_head p)) then mark kUnsupportedOpcode
     else if request_of p = None then mark kBadRequest else p)"

definition head_ok :: "PacketHead \<Rightarrow> bool" where
  "head_ok h \<longleftrightarrow> head_magic h = kDefaultMagic \<and> head_version h = kDefaultVersion \<and> head_msg_type h = kRequest"

definition default_verdict :: "bytes \<Rightarrow> verdict" where
  "default_verdict c = (let h = parse_head c in
     if head_ok h \<and> head_body_length h = 0
     then Take (checked \<lparr>pkt_head = h, pkt_body = []\<rparr>) 0 else Reject)"

lemma parse_head_take: "parse_head (take 24 m) = parse_head m"
  by (simp add: parse_head_def take_drop min_def)

lemma parse_head_CReadData:
  "buf_inv b \<Longrightarrow> 24 \<le> length (buf_content b) \<Longrightarrow> parse_head (CReadData b) = parse_head (buf_content b)"
  using CReadData_content [of b 24] parse_head_take [of "CReadData b"] parse_head_take [of "buf_content b"] by simp

lemma decode_head:
  assumes "buf_inv b" "24 \<le> length (buf_content b)"
  shows "DecodeFlowToPacket big (Some (CReadData b)) 24 (Some p) =
    (if head_body_length (parse_head (buf_content b)) = 0
     then Inr (True, Some \<lparr>pkt_head = parse_head (buf_content b), pkt_body = []\<rparr>)
     else Inr (False, Some (p\<lparr>pkt_head := parse_head (buf_content b)\<rparr>)))"
  using assms length_CReadData [OF assms(1)]
  by (auto simp: DecodeFlowToPacket_eq Let_def parse_head_CReadData unat_eq_0)

lemmas hook_simps = sizeof_PacketHead_def Buffer_Size_content decode_head

lemma kDefaultHeadCheck_eq:
  "buf_inv b \<Longrightarrow> 24 \<le> length (buf_content b) \<Longrightarrow>
   kDefaultHeadCheck hw b = Inr (default_verdict (buf_content b) = Reject, b)"
  by (auto simp: kDefaultHeadCheck_def hook_simps default_verdict_def head_ok_def Let_def length_check_unat)

lemma kDefaultShouldGet_eq:
  "buf_inv b \<Longrightarrow> 24 \<le> length (buf_content b) \<Longrightarrow>
   kDefaultShouldGet hw b = Inr (head_body_length (parse_head (buf_content b)) = 0, b)"
  by (simp add: kDefaultShouldGet_def hook_simps)

lemma kDefaultBodyCheck_eq:
  assumes "buf_inv b" "24 \<le> length (buf_content b)" "head_body_length (parse_head (buf_content b)) = 0"
  shows "\<exists>b'. kDefaultBodyCheck hw b (Some r) =
      Inr (True, b', Some (checked \<lparr>pkt_head = parse_head (buf_content b), pkt_body = []\<rparr>)) \<and>
    buf_inv b' \<and> buf_content b' = drop 24 (buf_content b)"
proof -
  let ?p = "\<lparr>pkt_head = parse_head (buf_content b), pkt_body = []\<rparr>"
  obtain b' where b': "ReadBuffer b 24 = Inr (take 24 (buf_content b), b')" "buf_inv b'"
    "buf_content b' = drop 24 (buf_content b)"
    using nb.get_law assms by blast
  obtain ok rq where "DecodePacketToKVRequest (host_big hw) (Some ?p) (Some (local_request hw)) = Inr (ok, Some rq)"
    "if ok then request_of ?p = Some rq else request_of ?p = None"
    using DecodePacketToKVRequest_total by blast
  with b' assms show ?thesis
    by (auto simp: kDefaultBodyCheck_def hook_simps DecodeFlowToPacket_sv_def DecodeFlowToPacket_eq
        parse_head_take checked_def Let_def)
qed

section \<open>Properties\<close>

text \<open>
  C6. The echo handler refines the protocol's specification for every packet a check may
  hand it, whatever is in the packet: the table changes as the abstract operation says, the
  response carries the packet's opcode and request id with the specified status and value,
  its header states its length, and values stored through it stay within the value limit, so
  that the fallback to INTERNAL_ERROR is never taken.
\<close>

theorem ShouldEcho_refines:
  assumes "sv_shouldecho sv = kDefaultShouldEcho" "store_ok (sv_kvstore sv)"
  shows "\<exists>sv'. ShouldEcho hw sv b (Some p) (Some e) = Inr (True, sv', b, Some p,
      Some (response_packet (snd (spec_execute (sv_map sv) p)) (head_opcode (pkt_head p)) (head_request_id (pkt_head p)))) \<and>
    sv_map sv' = fst (spec_execute (sv_map sv) p) \<and> store_ok (sv_kvstore sv') \<and>
    packet_wf (response_packet (snd (spec_execute (sv_map sv) p)) (head_opcode (pkt_head p)) (head_request_id (pkt_head p)))"
  using ShouldEcho_eq [OF assms, of hw b p e] spec_execute_small [of "sv_map sv" p] packet_wf_reply [of "sv_map sv" p]
    assms(2)
  by (simp add: store_ok_def reply_packet_def)

theorem ShouldEcho_refines_witness:
  "\<exists>sv'. ShouldEcho \<lparr>host_big = False, host_head = pkt_head sample_packet, host_word = 9\<rparr>
        (KVService_default \<lparr>host_big = False, host_head = pkt_head sample_packet, host_word = 9\<rparr>)
        (mk_buf [] [] []) (Some (request_packet sample_put)) (Some sample_packet) = Inr (True, sv', mk_buf [] [] [], Some (request_packet sample_put),
      Some (response_packet (snd (spec_execute (sv_map (KVService_default \<lparr>host_big = False, host_head = pkt_head sample_packet, host_word = 9\<rparr>)) (request_packet sample_put)))
        (head_opcode (pkt_head (request_packet sample_put))) (head_request_id (pkt_head (request_packet sample_put))))) \<and>
    sv_map sv' = fst (spec_execute (sv_map (KVService_default \<lparr>host_big = False, host_head = pkt_head sample_packet, host_word = 9\<rparr>)) (request_packet sample_put)) \<and>
    store_ok (sv_kvstore sv') \<and>
    packet_wf (response_packet (snd (spec_execute (sv_map (KVService_default \<lparr>host_big = False, host_head = pkt_head sample_packet, host_word = 9\<rparr>)) (request_packet sample_put)))
        (head_opcode (pkt_head (request_packet sample_put))) (head_request_id (pkt_head (request_packet sample_put))))"
  by (rule ShouldEcho_refines) (simp_all add: KVService_default_def KVService_new_def store_ok_def KVStore_new_def)

end
