(* ===== verification/KV_Server.thy ===== *)
theory KV_Server
  imports KV_Service
begin

text \<open>
  The message handler that \<open>adachi::network::kv::KVServer\<close> installs on every connection
  (\<^verbatim>\<open>src/kv/kvserver.cpp\<close>): it takes complete requests off the connection's input buffer, has
  the service execute them and writes the responses back. The connection is whatever state
  \<open>'c\<close> its two member functions \<open>Write\<close> and \<open>Close\<close> work on; they are arguments here and
  become those of \<open>TcpConnection\<close> in the theory of the whole server.
\<close>

section \<open>The handler\<close>

type_synonym 'c msg_state = "KVService \<times> 'c \<times> Buffer"

text \<open>One iteration of the loop; the flag says that the handler has returned.\<close>

definition on_message_iter ::
  "Host \<Rightarrow> ('c \<Rightarrow> bytes \<Rightarrow> 'c res) \<Rightarrow> ('c \<Rightarrow> 'c res) \<Rightarrow> 'c msg_state \<Rightarrow> (bool \<times> 'c msg_state) res" where
  "on_message_iter hw Write Close st = (case st of (sv, conn, buffer) \<Rightarrow>
     rbind (HeadCheck sv buffer) (\<lambda>(bad, buffer).
     if bad then rbind (Close conn) (\<lambda>conn. Inr (True, sv, conn, buffer))
     else rbind (ShouldGet sv buffer) (\<lambda>(ready, buffer).
     if \<not> ready then Inr (True, sv, conn, buffer)
     else rbind (BodyCheck sv buffer (Some (local_packet hw))) (\<lambda>(ok, buffer, result).
     if \<not> ok then rbind (Close conn) (\<lambda>conn. Inr (True, sv, conn, buffer))
     else rbind (ShouldEcho hw sv buffer result (Some (local_packet hw))) (\<lambda>(reply, sv, buffer, result, echo).
     if \<not> reply then Inr (False, sv, conn, buffer)
     else rbind (EncodePacketToFlow_str (host_big hw) echo []) (\<lambda>(ok, msg).
     if \<not> ok then rbind (Close conn) (\<lambda>conn. Inr (True, sv, conn, buffer))
     else rbind (Write conn msg) (\<lambda>conn. Inr (False, sv, conn, buffer))))))))"

text \<open>
  The loop. It need not end for hooks that take nothing off the buffer, so it is a partial
  function: \<open>None\<close> is a handler that never returns.
\<close>

partial_function (option) on_message ::
  "Host \<Rightarrow> ('c \<Rightarrow> bytes \<Rightarrow> 'c res) \<Rightarrow> ('c \<Rightarrow> 'c res) \<Rightarrow> 'c msg_state \<Rightarrow> 'c msg_state res option" where
  "on_message hw Write Close st =
     (if Buffer_Size (snd (snd st)) < sizeof_PacketHead then Some (Inr st)
      else case on_message_iter hw Write Close st of
        Inl e \<Rightarrow> Some (Inl e)
      | Inr (returned, st) \<Rightarrow> if returned then Some (Inr st) else on_message hw Write Close st)"

section \<open>What the handler serves\<close>

text \<open>
  The reference: on the bytes \<open>c\<close> of the buffer, with the table \<open>m\<close>, under hooks that decide
  by \<open>verdict\<close>: the table afterwards, the messages written, whether the connection is closed,
  and the bytes that stay in the buffer.
\<close>

function serve ::
  "(bytes \<Rightarrow> verdict) \<Rightarrow> (bytes \<rightharpoonup> bytes) \<Rightarrow> bytes \<Rightarrow> (bytes \<rightharpoonup> bytes) \<times> bytes list \<times> bool \<times> bytes" where
  "serve vf m c =
     (if length c < 24 then (m, [], False, c)
      else case vf c of
        Reject \<Rightarrow> (m, [], True, c)
      | Wait \<Rightarrow> (m, [], False, c)
      | Take p n \<Rightarrow>
          let (m', out, closed, rest) = serve vf (fst (spec_execute m p)) (drop (24 + n) c)
          in (m', packet_wire (reply_packet m p) # out, closed, rest))"
  by pat_completeness auto
termination
  by (relation "measure (\<lambda>(_, _, c). length c)") auto

declare serve.simps [simp del]

lemma serve_simps [simp]:
  "length c < 24 \<Longrightarrow> serve vf m c = (m, [], False, c)"
  "24 \<le> length c \<Longrightarrow> vf c = Reject \<Longrightarrow> serve vf m c = (m, [], True, c)"
  "24 \<le> length c \<Longrightarrow> vf c = Wait \<Longrightarrow> serve vf m c = (m, [], False, c)"
  "24 \<le> length c \<Longrightarrow> vf c = Take p n \<Longrightarrow> serve vf m c =
     (let (m', out, closed, rest) = serve vf (fst (spec_execute m p)) (drop (24 + n) c)
      in (m', packet_wire (reply_packet m p) # out, closed, rest))"
  by (simp_all add: serve.simps [of vf m c])

section \<open>Hooks as an interface\<close>

text \<open>
  What the handler needs from a service: on a buffer that holds at least a header the three
  checks agree with one verdict on its bytes, and taking a packet removes exactly its bytes.
\<close>

locale service_hooks =
  fixes hc sg :: buffer_hook
    and bc :: body_hook
    and vf :: "bytes \<Rightarrow> verdict"
  assumes reject_law: "buf_inv b \<Longrightarrow> 24 \<le> length (buf_content b) \<Longrightarrow> hc b = Inr (vf (buf_content b) = Reject, b)"
    and wait_law: "buf_inv b \<Longrightarrow> 24 \<le> length (buf_content b) \<Longrightarrow> vf (buf_content b) \<noteq> Reject \<Longrightarrow>
      sg b = Inr (vf (buf_content b) \<noteq> Wait, b)"
    and take_law: "buf_inv b \<Longrightarrow> 24 \<le> length (buf_content b) \<Longrightarrow> vf (buf_content b) = Take p n \<Longrightarrow>
      \<exists>b'. bc b (Some r) = Inr (True, b', Some p) \<and> buf_inv b' \<and> buf_content b' = drop (24 + n) (buf_content b)"
begin

lemma serves:
  assumes "sv_headcheck sv = hc" "sv_shouldget sv = sg" "sv_bodycheck sv = bc"
    "sv_shouldecho sv = kDefaultShouldEcho" "\<forall>v \<in> ran (sv_map sv). length v \<le> 1048576" "buf_inv b"
    "serve vf (sv_map sv) (buf_content b) = (m', out, closed, rest)"
  shows "\<exists>b'. on_message hw Write Close (sv, conn, b) =
      Some (rbind (play Write Close conn out closed) (\<lambda>conn. Inr (with_map sv m', conn, b'))) \<and>
    buf_inv b' \<and> buf_content b' = rest"
  using assms
proof (induction "length (buf_content b)" arbitrary: b sv conn m' out rest rule: less_induct)
  case less
  note hooks = less.prems(1-4) and small = less.prems(5) and inv = less.prems(6) and srv = less.prems(7)
  note unfold = on_message.simps [of hw Write Close "(sv, conn, b)"] on_message_iter_def HeadCheck_def
    ShouldGet_def BodyCheck_def play_def
  show ?case
  proof (cases "length (buf_content b) < 24")
    case True
    with inv srv show ?thesis by (simp add: unfold Buffer_Size_content sizeof_PacketHead_def)
  next
    case False
    then have len: "24 \<le> length (buf_content b)" by simp
    note here = hooks inv len Buffer_Size_content [OF inv] sizeof_PacketHead_def
      reject_law [OF inv len] wait_law [OF inv len]
    show ?thesis
    proof (cases "vf (buf_content b)")
      case Reject
      with here srv show ?thesis by (cases "Close conn") (auto simp: unfold)
    next
      case Wait
      with here srv show ?thesis by (simp add: unfold)
    next
      case (Take p n)
      obtain b1 where b1: "bc b (Some (local_packet hw)) = Inr (True, b1, Some p)" "buf_inv b1"
        "buf_content b1 = drop (24 + n) (buf_content b)"
        using take_law [OF inv len Take] by blast
      let ?sv = "with_map sv (fst (spec_execute (sv_map sv) p))"
      obtain out' where out: "out = packet_wire (reply_packet (sv_map sv) p) # out'"
        and rec: "serve vf (sv_map ?sv) (buf_content b1) = (m', out', closed, rest)"
        using srv len Take b1 by (auto split: prod.splits)
      have small': "\<forall>v \<in> ran (sv_map ?sv). length v \<le> 1048576"
        using small by (simp add: spec_execute_small)
      have le: "length (buf_content b1) < length (buf_content b)"
        using b1(3) len by simp
      note IH = less.hyps [OF le, of ?sv, OF _ _ _ _ small' b1(2) rec]
      have echo: "ShouldEcho hw sv b1 (Some p) (Some (local_packet hw)) =
          Inr (True, ?sv, b1, Some p, Some (reply_packet (sv_map sv) p))"
        using hooks small by (simp add: ShouldEcho_eq store_ok_def)
      have "on_message hw Write Close (sv, conn, b) =
          (case Write conn (packet_wire (reply_packet (sv_map sv) p)) of Inl e \<Rightarrow> Some (Inl e)
           | Inr conn \<Rightarrow> on_message hw Write Close (?sv, conn, b1))"
        using here Take b1 echo packet_wf_reply [OF small, of p]
        by (simp add: unfold EncodePacketToFlow_wf split: sum.splits)
      with IH [of "case Write conn (packet_wire (reply_packet (sv_map sv) p)) of Inr c \<Rightarrow> c"] hooks out show ?thesis
        by (cases "Write conn (packet_wire (reply_packet (sv_map sv) p))")
          (auto simp: play_def)
    qed
  qed
qed

end

interpretation dh: service_hooks "kDefaultHeadCheck hw" "kDefaultShouldGet hw" "kDefaultBodyCheck hw" default_verdict for hw
proof
  fix b :: Buffer and p n r
  assume inv: "buf_inv b" and len: "24 \<le> length (buf_content b)"
  show "kDefaultHeadCheck hw b = Inr (default_verdict (buf_content b) = Reject, b)"
    using inv len by (rule kDefaultHeadCheck_eq)
  show "kDefaultShouldGet hw b = Inr (default_verdict (buf_content b) \<noteq> Wait, b)"
    if "default_verdict (buf_content b) \<noteq> Reject"
    using that kDefaultShouldGet_eq [OF inv len] by (auto simp: default_verdict_def Let_def split: if_splits)
  show "\<exists>b'. kDefaultBodyCheck hw b (Some r) = Inr (True, b', Some p) \<and> buf_inv b' \<and>
      buf_content b' = drop (24 + n) (buf_content b)"
    if "default_verdict (buf_content b) = Take p n"
    using that kDefaultBodyCheck_eq [OF inv len] by (auto simp: default_verdict_def Let_def split: if_splits)
qed

section \<open>Properties\<close>

lemmas default_service_simps = KVService_default_def KVService_new_def KVStore_new_def

lemma default_serves:
  assumes "store_ok st" "buf_inv b" "serve default_verdict (kv_mp st) (buf_content b) = (m', out, closed, rest)"
  shows "\<exists>b'. on_message hw Write Close (KVService_default hw\<lparr>sv_kvstore := st\<rparr>, conn, b) =
      Some (rbind (play Write Close conn out closed)
        (\<lambda>conn. Inr (KVService_default hw\<lparr>sv_kvstore := \<lparr>kv_mp = m'\<rparr>\<rparr>, conn, b'))) \<and>
    buf_inv b' \<and> buf_content b' = rest"
  using dh.serves [of "KVService_default hw\<lparr>sv_kvstore := st\<rparr>" hw b m' out closed rest hw Write Close conn] assms
  by (simp add: default_service_simps with_map_def store_ok_def)

text \<open>
  C3. The message handler of a server with the default service always returns, whatever
  bytes a peer has sent, and does exactly what the reference \<open>serve\<close> says: it answers the
  complete requests it takes one after the other and in order, updates the table as the
  specification does, closes the connection on the first bytes it rejects, leaves the
  unconsumed bytes in the buffer, and fails only if the connection's own \<open>Write\<close> or \<open>Close\<close> does.
\<close>

theorem on_message_serves:
  assumes "store_ok st" "buf_inv b" "serve default_verdict (kv_mp st) (buf_content b) = (m', out, closed, rest)"
  shows "\<exists>b'. on_message hw Write Close (KVService_default hw\<lparr>sv_kvstore := st\<rparr>, conn, b) =
      Some (rbind (play Write Close conn out closed)
        (\<lambda>conn. Inr (KVService_default hw\<lparr>sv_kvstore := \<lparr>kv_mp = m'\<rparr>\<rparr>, conn, b'))) \<and>
    buf_inv b' \<and> buf_content b' = rest"
  using assms by (rule default_serves)

definition ping_packet :: "64 word \<Rightarrow> Packet" where
  "ping_packet rid = \<lparr>pkt_head = \<lparr>head_magic = kDefaultMagic, head_version = kDefaultVersion,
     head_msg_type = kRequest, head_opcode = kPing, head_status = kOk, head_body_length = 0,
     head_request_id = rid\<rparr>, pkt_body = []\<rparr>"

definition pong_packet :: "64 word \<Rightarrow> Packet" where
  "pong_packet rid = response_packet (plain_response kOk) kPing rid"

lemma ping_verdict:
  "default_verdict (packet_wire (ping_packet rid) @ c) = Take (ping_packet rid) 0"
proof -
  have "request_of (ping_packet rid) = Some \<lparr>rq_opcode = kPing, rq_key = [], rq_value = [], rq_extrainfo = []\<rparr>"
    by (simp add: request_of_iff ping_packet_def packet_wf_def request_norm_def request_ok_def request_wire_def)
  then show ?thesis
    by (simp add: default_verdict_def packet_wire_def ping_packet_def head_ok_def checked_def IsSupportedOpcode_def)
qed

lemma ping_execute: "spec_execute m (ping_packet rid) = (m, plain_response kOk)"
proof -
  have "request_of (ping_packet rid) = Some \<lparr>rq_opcode = kPing, rq_key = [], rq_value = [], rq_extrainfo = []\<rparr>"
    by (simp add: request_of_iff ping_packet_def packet_wf_def request_norm_def request_ok_def request_wire_def)
  then show ?thesis
    by (simp add: spec_execute_def request_op_def) (simp add: ping_packet_def)
qed

lemma serve_pings:
  "length tail < 24 \<Longrightarrow> serve default_verdict m (concat (map (packet_wire \<circ> ping_packet) ids) @ tail) =
     (m, map (packet_wire \<circ> pong_packet) ids, False, tail)"
proof (induction ids)
  case Nil
  then show ?case by simp
next
  case (Cons rid ids)
  moreover have "drop 24 (packet_wire (ping_packet rid)) = []" "length (packet_wire (ping_packet rid)) = 24"
    by (simp_all add: packet_wire_def) (simp_all add: ping_packet_def)
  moreover have "reply_packet m (ping_packet rid) = pong_packet rid"
    by (simp add: reply_packet_def ping_execute pong_packet_def) (simp add: ping_packet_def)
  ultimately show ?case
    by (simp add: ping_verdict ping_execute)
qed

theorem on_message_serves_witness:
  "\<exists>b'. on_message \<lparr>host_big = False, host_head = parse_head [], host_word = 9\<rparr> (\<lambda>c m. Inr (c @ m)) Inr
        (KVService_default \<lparr>host_big = False, host_head = parse_head [], host_word = 9\<rparr>\<lparr>sv_kvstore := KVStore_new\<rparr>, [9],
         mk_buf [] (packet_wire (ping_packet 8) @ packet_wire (ping_packet 5) @ [1, 2, 3]) []) =
      Some (Inr (KVService_default \<lparr>host_big = False, host_head = parse_head [], host_word = 9\<rparr>\<lparr>sv_kvstore := \<lparr>kv_mp = Map.empty\<rparr>\<rparr>,
        [9] @ packet_wire (pong_packet 8) @ packet_wire (pong_packet 5), b')) \<and>
    buf_inv b' \<and> buf_content b' = [1, 2, 3]"
proof -
  let ?b = "mk_buf [] (packet_wire (ping_packet 8) @ packet_wire (ping_packet 5) @ [1, 2, 3]) []"
  have "serve default_verdict (kv_mp KVStore_new) (buf_content ?b) =
      (Map.empty, [packet_wire (pong_packet 8), packet_wire (pong_packet 5)], False, [1, 2, 3])"
    using serve_pings [of "[1, 2, 3]" Map.empty "[8, 5]"] by (simp add: KVStore_new_def)
  moreover have "buf_inv ?b" by (simp add: packet_wire_def ping_packet_def)
  moreover have "store_ok KVStore_new" by (simp add: store_ok_def KVStore_new_def)
  ultimately show ?thesis
    using on_message_serves [of KVStore_new ?b Map.empty "[packet_wire (pong_packet 8), packet_wire (pong_packet 5)]" False "[1, 2, 3]"
        "\<lparr>host_big = False, host_head = parse_head [], host_word = 9\<rparr>" "\<lambda>c m. Inr (c @ m)" Inr "[9]"]
    by (simp add: play_def)
qed

text \<open>
  Pipelining: any number of PING requests that arrive together, followed by an incomplete
  one, are all answered with OK, in order, each with its own request id; the incomplete one
  stays in the buffer and the table does not change.
\<close>

theorem on_message_pipelined_pings:
  assumes "store_ok st" "buf_inv b" "length tail < 24"
    "buf_content b = concat (map (packet_wire \<circ> ping_packet) ids) @ tail"
  shows "\<exists>b'. on_message hw Write Close (KVService_default hw\<lparr>sv_kvstore := st\<rparr>, conn, b) =
      Some (rbind (put_all Write conn (map (packet_wire \<circ> pong_packet) ids))
        (\<lambda>conn. Inr (KVService_default hw\<lparr>sv_kvstore := st\<rparr>, conn, b'))) \<and>
    buf_inv b' \<and> buf_content b' = tail"
  using default_serves [OF assms(1,2), of "kv_mp st" "map (packet_wire \<circ> pong_packet) ids" False tail hw Write Close conn]
    assms serve_pings [of tail "kv_mp st" ids]
  by (simp add: play_def rbind_assoc)

theorem on_message_pipelined_pings_witness:
  "\<exists>b'. on_message \<lparr>host_big = False, host_head = parse_head [], host_word = 9\<rparr> (\<lambda>c m. Inr (c @ m)) Inr
        (KVService_default \<lparr>host_big = False, host_head = parse_head [], host_word = 9\<rparr>\<lparr>sv_kvstore := KVStore_new\<rparr>, [],
         mk_buf [] (concat (map (packet_wire \<circ> ping_packet) [7, 8]) @ [1]) []) =
      Some (rbind (put_all (\<lambda>c m. Inr (c @ m)) [] (map (packet_wire \<circ> pong_packet) [7, 8]))
        (\<lambda>conn. Inr (KVService_default \<lparr>host_big = False, host_head = parse_head [], host_word = 9\<rparr>\<lparr>sv_kvstore := KVStore_new\<rparr>, conn, b'))) \<and>
    buf_inv b' \<and> buf_content b' = [1]"
  by (rule on_message_pipelined_pings)
    (simp_all add: store_ok_def KVStore_new_def packet_wire_def ping_packet_def)

text \<open>
  C34. What the default checks really accept: they decode the header with a length of 24
  bytes, which fails for every packet that announces a body. So any valid PUT, GET or DEL
  request, complete or not, closes the connection; nothing is written and the table keeps
  its contents.
\<close>

theorem default_service_rejects_bodies:
  assumes "store_ok st" "buf_inv b" "request_ok rq" "rq_opcode rq \<noteq> kPing"
    "buf_content b = packet_wire (request_packet rq) @ rest"
  shows "\<exists>b'. on_message hw Write Close (KVService_default hw\<lparr>sv_kvstore := st\<rparr>, conn, b) =
      Some (rbind (Close conn) (\<lambda>conn. Inr (KVService_default hw\<lparr>sv_kvstore := st\<rparr>, conn, b'))) \<and>
    buf_inv b' \<and> buf_content b' = packet_wire (request_packet rq) @ rest"
proof -
  have "request_wire rq \<noteq> []"
    using assms by (auto simp: request_ok_def request_wire_def)
  then have "head_body_length (pkt_head (request_packet rq)) \<noteq> 0"
    using packet_wf_request_packet [OF assms(3)] by (auto simp: packet_wf_def)
  then have "serve default_verdict (kv_mp st) (buf_content b) = (kv_mp st, [], True, buf_content b)"
    using assms(5) by (simp add: default_verdict_def packet_wire_def)
  from default_serves [OF assms(1,2) this, of hw Write Close conn] assms(5) show ?thesis
    by (simp add: play_def)
qed

theorem default_service_rejects_bodies_witness:
  "\<exists>b'. on_message \<lparr>host_big = False, host_head = parse_head [], host_word = 9\<rparr> (\<lambda>c m. Inr (c @ m)) (\<lambda>c. Inr (c @ [255]))
        (KVService_default \<lparr>host_big = False, host_head = parse_head [], host_word = 9\<rparr>\<lparr>sv_kvstore := KVStore_new\<rparr>, [],
         mk_buf [] (packet_wire (request_packet sample_put) @ []) []) =
      Some (rbind (Inr [255]) (\<lambda>conn. Inr (KVService_default \<lparr>host_big = False, host_head = parse_head [], host_word = 9\<rparr>\<lparr>sv_kvstore := KVStore_new\<rparr>, conn, b'))) \<and>
    buf_inv b' \<and> buf_content b' = packet_wire (request_packet sample_put) @ []"
  using default_service_rejects_bodies [of KVStore_new "mk_buf [] (packet_wire (request_packet sample_put) @ []) []" sample_put "[]"
      "\<lparr>host_big = False, host_head = parse_head [], host_word = 9\<rparr>" "\<lambda>c m. Inr (c @ m)" "\<lambda>c. Inr (c @ [255])" "[]"]
  by (simp add: store_ok_def KVStore_new_def request_ok_def sample_put_def packet_wire_def request_wire_def)

end
