(* ===== verification/Inet_Addr.thy ===== *)
theory Inet_Addr
  imports Cxx_Prelude
begin

text \<open>
  \<open>adachi::network::INetAddress\<close> and \<open>adachi::network::Socket\<close> (\<^verbatim>\<open>src/inetaddress.cpp\<close>,
  \<^verbatim>\<open>src/socket.cpp\<close>). The text form of an address goes through the C library: \<open>inet_ntop\<close> gives the dotted
  decimal text of four octets, and \<open>inet_pton\<close> is a parameter of which only one documented fact is used, that it reads
  such a text back (\<open>pton_documented\<close>). A string is the list of its bytes.
\<close>

section \<open>Dotted decimal text\<close>

fun inet_ntop :: "nat list \<Rightarrow> bytes" where
  "inet_ntop [] = []"
| "inet_ntop [v] = digits v"
| "inet_ntop (v # vs) = digits v @ 46 # inet_ntop vs"

definition octets_ok :: "nat list \<Rightarrow> bool" where
  "octets_ok vs \<longleftrightarrow> length vs = 4 \<and> (\<forall>v \<in> set vs. v < 256)"

text \<open>
  What the code takes from the host: its byte order, and \<open>inet_pton\<close> for \<open>AF_INET\<close>, which gives the octets of a text or
  refuses it.
\<close>

record net_host =
  nh_big :: bool
  nh_pton :: "bytes \<Rightarrow> nat list option"

definition pton_documented :: "net_host \<Rightarrow> bool" where
  "pton_documented nh \<longleftrightarrow> (\<forall>vs. octets_ok vs \<longrightarrow> nh_pton nh (inet_ntop vs) = Some vs)"

section \<open>INetAddress\<close>

text \<open>
  \<open>AF_UNSPEC\<close> is the family of a structure filled with zeros; the address is kept as its four
  octets and the port as it lies in memory; \<open>big\<close> tells the byte order of the host.
\<close>

datatype sa_family = AF_UNSPEC | AF_INET

record sockaddr_in =
  sin_family :: sa_family
  sin_port :: "16 word"
  sin_addr :: "nat list"

record INetAddress =
  ia_addr :: sockaddr_in
  ia_len :: nat

definition sizeof_sockaddr_in :: nat where
  "sizeof_sockaddr_in = 16"

definition zero_addr :: sockaddr_in where
  "zero_addr = \<lparr>sin_family = AF_UNSPEC, sin_port = 0, sin_addr = [0, 0, 0, 0]\<rparr>"

definition INetAddress_new :: INetAddress where
  "INetAddress_new = \<lparr>ia_addr = zero_addr\<lparr>sin_family := AF_INET\<rparr>, ia_len = sizeof_sockaddr_in\<rparr>"

text \<open>\<open>inet_pton\<close> fails for a family it does not know.\<close>

definition SetIp :: "net_host \<Rightarrow> bytes \<Rightarrow> INetAddress \<Rightarrow> bool \<times> INetAddress" where
  "SetIp nh ip a = (if sin_family (ia_addr a) \<noteq> AF_INET then (False, a)
     else case nh_pton nh ip of None \<Rightarrow> (False, a)
       | Some vs \<Rightarrow> (True, a\<lparr>ia_addr := (ia_addr a)\<lparr>sin_addr := vs\<rparr>\<rparr>))"

definition SetPort :: "bool \<Rightarrow> 16 word \<Rightarrow> INetAddress \<Rightarrow> INetAddress" where
  "SetPort big port a = a\<lparr>ia_addr := (ia_addr a)\<lparr>sin_port := hton big port\<rparr>\<rparr>"

definition Port :: "bool \<Rightarrow> INetAddress \<Rightarrow> 16 word" where
  "Port big a = hton big (sin_port (ia_addr a))"

definition Ip :: "INetAddress \<Rightarrow> bytes" where
  "Ip a = inet_ntop (sin_addr (ia_addr a))"

definition GetCore :: "INetAddress \<Rightarrow> sockaddr_in" where
  "GetCore a = ia_addr a"

definition Length :: "INetAddress \<Rightarrow> nat" where
  "Length a = ia_len a"

text \<open>The two assignments have the same body, and so have the two constructors from another address.\<close>

definition INetAddress_assign :: "net_host \<Rightarrow> INetAddress \<Rightarrow> INetAddress \<Rightarrow> INetAddress" where
  "INetAddress_assign nh obj this =
     (let this = snd (SetIp nh (Ip obj) this);
          this = SetPort (nh_big nh) (Port (nh_big nh) obj) this;
          this = this\<lparr>ia_len := sizeof_sockaddr_in\<rparr>
      in this\<lparr>ia_addr := (ia_addr this)\<lparr>sin_family := AF_INET\<rparr>\<rparr>)"

definition INetAddress_copy :: "net_host \<Rightarrow> INetAddress \<Rightarrow> INetAddress" where
  "INetAddress_copy nh obj =
     (let this = \<lparr>ia_addr = zero_addr, ia_len = 0\<rparr>;
          this = snd (SetIp nh (Ip obj) this);
          this = SetPort (nh_big nh) (Port (nh_big nh) obj) this;
          this = this\<lparr>ia_len := sizeof_sockaddr_in\<rparr>
      in this\<lparr>ia_addr := (ia_addr this)\<lparr>sin_family := AF_INET\<rparr>\<rparr>)"

definition addr_ok :: "INetAddress \<Rightarrow> bool" where
  "addr_ok a \<longleftrightarrow> octets_ok (sin_addr (ia_addr a))"

section \<open>Socket\<close>

text \<open>A socket is its descriptor; \<open>closed\<close> are the descriptors given back to the kernel.\<close>

record Socket =
  so_fd :: int

definition Socket_new :: "int \<Rightarrow> Socket" where
  "Socket_new fd = \<lparr>so_fd = fd\<rparr>"

definition Socket_destroy :: "Socket \<Rightarrow> int list \<Rightarrow> int list" where
  "Socket_destroy so closed = (if so_fd so \<ge> 0 then closed @ [so_fd so] else closed)"

definition Socket_Close :: "Socket \<times> int list \<Rightarrow> Socket \<times> int list" where
  "Socket_Close st = (case st of (so, closed) \<Rightarrow>
     (so\<lparr>so_fd := -1\<rparr>, if so_fd so \<ge> 0 then closed @ [so_fd so] else closed))"

text \<open>The move constructor: the new socket and the one it was made from.\<close>

definition Socket_move :: "Socket \<Rightarrow> Socket \<times> Socket" where
  "Socket_move newsocket = (\<lparr>so_fd = so_fd newsocket\<rparr>, newsocket\<lparr>so_fd := -1\<rparr>)"

text \<open>\<open>rc\<close> is what the system call returned.\<close>

definition BindAddress :: "(int \<Rightarrow> sockaddr_in \<Rightarrow> nat \<Rightarrow> int) \<Rightarrow> INetAddress \<Rightarrow> Socket \<Rightarrow> bool" where
  "BindAddress bind addr so = (bind (so_fd so) (GetCore addr) (Length addr) = 0)"

definition Socket_Listen :: "(int \<Rightarrow> int \<Rightarrow> int) \<Rightarrow> int \<Rightarrow> Socket \<Rightarrow> bool" where
  "Socket_Listen listen backlog so = (listen (so_fd so) backlog = 0)"

text \<open>What \<open>accept4\<close> answers: a descriptor with the peer's address, or an error number.\<close>

datatype acc_result = AccFd nat sockaddr_in | AccError int

definition Socket_Accept :: "acc_result \<Rightarrow> INetAddress \<Rightarrow> int \<times> INetAddress" where
  "Socket_Accept r addr = (case r of
     AccFd fd peer \<Rightarrow> (int fd, addr\<lparr>ia_addr := peer, ia_len := sizeof_sockaddr_in\<rparr>)
   | AccError e \<Rightarrow> (-1, addr\<lparr>ia_len := sizeof_sockaddr_in\<rparr>))"

definition CreateNonBlockSocket :: "int \<Rightarrow> Socket" where
  "CreateNonBlockSocket fd = Socket_new fd"

definition Socket_Fd :: "Socket \<Rightarrow> int" where
  "Socket_Fd so = so_fd so"

lemma Port_SetPort [simp]: "Port big (SetPort big p a) = p"
  by (simp add: Port_def SetPort_def hton_hton int_size_def)

section \<open>A host\<close>

text \<open>
  A function with the documented property, for examples: four octets in decimal without leading zeros; \<open>saw\<close> tells that the
  current octet \<open>tp\<close> has a digit, \<open>dn\<close> are the octets before it.
\<close>

fun pton_run :: "bytes \<Rightarrow> bool \<Rightarrow> nat \<Rightarrow> nat list \<Rightarrow> nat list option" where
  "pton_run [] saw tp dn = (if length dn + (if saw then 1 else 0) < 4 then None else Some (dn @ [tp]))"
| "pton_run (ch # s) saw tp dn =
     (if 48 \<le> unat ch \<and> unat ch \<le> 57 then
        (let new = tp * 10 + (unat ch - 48) in
         if saw \<and> tp = 0 then None
         else if 255 < new then None
         else pton_run s True new dn)
      else if ch = 46 \<and> saw then
        (if length dn + 1 = 4 then None else pton_run s False 0 (dn @ [tp]))
      else None)"

definition sample_net :: net_host where
  "sample_net = \<lparr>nh_big = False, nh_pton = \<lambda>s. pton_run s False 0 []\<rparr>"

lemma pton_run_digits: "v < 256 \<Longrightarrow> pton_run (digits v @ s) False 0 dn = pton_run s True v dn"
proof (induction v arbitrary: s rule: digits.induct)
  case (1 v)
  show ?case
  proof (cases "v < 10")
    case True
    with 1 show ?thesis by (simp add: digits_small unat_digit)
  next
    case False
    then have m: "0 < v div 10" "v mod 10 \<le> 9" by auto
    from False have d: "digits v = digits (v div 10) @ [digit (v mod 10)]" by (subst digits.simps) simp
    have "pton_run (digits (v div 10) @ digit (v mod 10) # s) False 0 dn =
        pton_run (digit (v mod 10) # s) True (v div 10) dn"
      using 1 False by simp
    also have "\<dots> = pton_run s True v dn"
      using 1(2) False m by (simp add: unat_digit Let_def)
    finally show ?thesis by (simp add: d)
  qed
qed

lemma pton_run_ntop:
  "(\<forall>v \<in> set vs. v < 256) \<Longrightarrow> vs \<noteq> [] \<Longrightarrow> length dn + length vs = 4 \<Longrightarrow>
   pton_run (inet_ntop vs) False 0 dn = Some (dn @ vs)"
proof (induction vs arbitrary: dn rule: inet_ntop.induct)
  case (2 v)
  then show ?case using pton_run_digits [of v "[]" dn] by simp
next
  case (3 v u vs)
  then show ?case by (simp add: pton_run_digits)
qed simp

lemma sample_net_documented: "pton_documented sample_net"
proof -
  have "pton_run (inet_ntop vs) False 0 [] = Some vs" if "octets_ok vs" for vs
    using that pton_run_ntop [of vs "[]"] by (cases vs) (auto simp: octets_ok_def)
  then show ?thesis by (simp add: pton_documented_def sample_net_def)
qed

section \<open>Properties\<close>

text \<open>
  C33. Assigning an address to a constructed one carries over the address and the port, whatever
  the target held before and whatever the byte order of the host, given that \<open>inet_pton\<close> reads back what \<open>inet_ntop\<close>
  has written.
\<close>

theorem assign_keeps_address:
  assumes "pton_documented nh" "addr_ok obj" "sin_family (ia_addr this) = AF_INET"
  shows "Ip (INetAddress_assign nh obj this) = Ip obj \<and> Port (nh_big nh) (INetAddress_assign nh obj this) = Port (nh_big nh) obj \<and>
    addr_ok (INetAddress_assign nh obj this) \<and> Length (INetAddress_assign nh obj this) = 16"
proof -
  have "SetIp nh (Ip obj) this = (True, this\<lparr>ia_addr := (ia_addr this)\<lparr>sin_addr := sin_addr (ia_addr obj)\<rparr>\<rparr>)"
    using assms by (simp add: SetIp_def Ip_def addr_ok_def pton_documented_def)
  with assms(2) show ?thesis
    by (simp add: INetAddress_assign_def Let_def Ip_def Port_def SetPort_def addr_ok_def Length_def
        sizeof_sockaddr_in_def hton_hton int_size_def)
qed

definition sample_addr :: INetAddress where
  "sample_addr = INetAddress_new\<lparr>ia_addr := \<lparr>sin_family = AF_INET, sin_port = 80, sin_addr = [10, 0, 0, 7]\<rparr>\<rparr>"

theorem assign_keeps_address_witness:
  "Ip (INetAddress_assign sample_net sample_addr INetAddress_new) = Ip sample_addr \<and>
   Port (nh_big sample_net) (INetAddress_assign sample_net sample_addr INetAddress_new) = Port (nh_big sample_net) sample_addr \<and>
   addr_ok (INetAddress_assign sample_net sample_addr INetAddress_new) \<and>
   Length (INetAddress_assign sample_net sample_addr INetAddress_new) = 16"
  by (rule assign_keeps_address [OF sample_net_documented])
    (simp_all add: addr_ok_def octets_ok_def sample_addr_def INetAddress_new_def)

text \<open>
  C40. Constructing an address from another one loses the IP address: \<open>SetIp\<close> is called while
  the family is still zero and fails, so the copy has the source's port and the address
  0.0.0.0, whatever the source is.
\<close>

theorem copy_loses_ip:
  "sin_addr (ia_addr (INetAddress_copy nh obj)) = [0, 0, 0, 0] \<and>
   Ip (INetAddress_copy nh obj) = [48, 46, 48, 46, 48, 46, 48] \<and> Port (nh_big nh) (INetAddress_copy nh obj) = Port (nh_big nh) obj"
  by (simp add: INetAddress_copy_def Let_def SetIp_def zero_addr_def SetPort_def Port_def Ip_def digits_small digit_def
      hton_hton int_size_def)

end
