(* ===== verification/Epoll_Channel.thy ===== *)
theory Epoll_Channel
  imports Cxx_Prelude
begin

text \<open>
  \<open>adachi::io::Channel\<close> and \<open>adachi::io::Epoll\<close> (\<^verbatim>\<open>src/channel.cpp\<close>, \<^verbatim>\<open>src/epoll.cpp\<close> and their
  headers): what a file descriptor is watched for, what runs when it becomes ready, and the
  poller that registers channels with the kernel. A channel is identified by a number that
  stands for its address; a callback is a value of the type \<open>'cb\<close>, \<open>None\<close> being the empty
  lambda of the constructor; a loop is identified by a number too.
\<close>

section \<open>Events\<close>

type_synonym events = "32 word"

definition kRead :: events where "kRead = 0x001"
definition kWrite :: events where "kWrite = 0x004"
definition kError :: events where "kError = 0x008"
definition kClose :: events where "kClose = 0x2000 OR 0x010"

text \<open>\<open>events & flag\<close> used as a condition.\<close>

definition has_event :: "events \<Rightarrow> events \<Rightarrow> bool" where
  "has_event ev flag \<longleftrightarrow> ev AND flag \<noteq> 0"

section \<open>Channels\<close>

record 'cb Channel =
  ch_read_callback :: "'cb option"
  ch_write_callback :: "'cb option"
  ch_error_callback :: "'cb option"
  ch_close_callback :: "'cb option"
  ch_save_life :: "nat option"
  ch_fd :: int
  ch_events :: events
  ch_active_events :: events
  ch_owner :: "nat option"
  ch_tied :: bool

text \<open>
  A member function called from another thread than the owner's hands itself over to that
  thread with \<open>SubmitAndWait\<close>: the result is then the closure the caller waits for, and
  \<open>run_channel_mission\<close> is what the owner does with it.
\<close>

datatype 'cb channel_mission =
    MSetReadCallback 'cb | MSetWriteCallback 'cb | MSetErrorCallback 'cb | MSetCloseCallback 'cb | MSetActive events

definition elsewhere :: "'cb Channel \<Rightarrow> bool \<Rightarrow> bool" where
  "elsewhere ch in_thread \<longleftrightarrow> ch_owner ch \<noteq> None \<and> \<not> in_thread"

definition SetReadCallback :: "bool \<Rightarrow> 'cb \<Rightarrow> 'cb Channel \<Rightarrow> 'cb Channel + 'cb channel_mission" where
  "SetReadCallback in_thread cb ch =
     (if elsewhere ch in_thread then Inr (MSetReadCallback cb) else Inl (ch\<lparr>ch_read_callback := Some cb\<rparr>))"

definition SetWriteCallback :: "bool \<Rightarrow> 'cb \<Rightarrow> 'cb Channel \<Rightarrow> 'cb Channel + 'cb channel_mission" where
  "SetWriteCallback in_thread cb ch =
     (if elsewhere ch in_thread then Inr (MSetWriteCallback cb) else Inl (ch\<lparr>ch_write_callback := Some cb\<rparr>))"

definition SetErrorCallback :: "bool \<Rightarrow> 'cb \<Rightarrow> 'cb Channel \<Rightarrow> 'cb Channel + 'cb channel_mission" where
  "SetErrorCallback in_thread cb ch =
     (if elsewhere ch in_thread then Inr (MSetErrorCallback cb) else Inl (ch\<lparr>ch_error_callback := Some cb\<rparr>))"

definition SetCloseCallback :: "bool \<Rightarrow> 'cb \<Rightarrow> 'cb Channel \<Rightarrow> 'cb Channel + 'cb channel_mission" where
  "SetCloseCallback in_thread cb ch =
     (if elsewhere ch in_thread then Inr (MSetCloseCallback cb) else Inl (ch\<lparr>ch_close_callback := Some cb\<rparr>))"

definition Channel_Fd :: "'cb Channel \<Rightarrow> int" where
  "Channel_Fd ch = ch_fd ch"

definition Channel_Events :: "'cb Channel \<Rightarrow> events" where
  "Channel_Events ch = ch_events ch"

definition SetActiveEvents :: "events \<Rightarrow> 'cb Channel \<Rightarrow> 'cb Channel" where
  "SetActiveEvents st ch = ch\<lparr>ch_active_events := st\<rparr>"

definition GetOwner :: "'cb Channel \<Rightarrow> nat option" where
  "GetOwner ch = ch_owner ch"

text \<open>
  \<open>Handle\<close> gives the callbacks it calls, in order; \<open>locked\<close> tells whether the object the
  channel is tied to is still alive.
\<close>

definition Handle :: "(nat \<Rightarrow> bool) \<Rightarrow> 'cb Channel \<Rightarrow> 'cb option list" where
  "Handle locked ch =
     (if ch_tied ch \<and> \<not> (case ch_save_life ch of None \<Rightarrow> False | Some ob \<Rightarrow> locked ob) then []
      else (if has_event (ch_active_events ch) kRead then [ch_read_callback ch] else [])
         @ (if has_event (ch_active_events ch) kWrite then [ch_write_callback ch] else [])
         @ (if has_event (ch_active_events ch) kError then [ch_error_callback ch] else [])
         @ (if has_event (ch_active_events ch) kClose then [ch_close_callback ch] else []))"

definition Tie :: "nat \<Rightarrow> 'cb Channel \<Rightarrow> 'cb Channel" where
  "Tie ob ch = ch\<lparr>ch_save_life := Some ob, ch_tied := True\<rparr>"

section \<open>The poller\<close>

text \<open>
  \<open>ep_interest\<close> is the kernel's interest list: for every registered descriptor the pointer
  and the events given with it. Registering a descriptor twice, and changing or removing one
  that is not registered, fails, as \<open>epoll_ctl\<close> documents; \<open>add_ok\<close> is false when the kernel
  refuses a new registration for want of memory or permission.
\<close>

record Epoll =
  ep_maxevents :: int
  ep_owner :: nat
  ep_interest :: "int \<rightharpoonup> nat \<times> events"

definition Epoll_new :: "nat \<Rightarrow> int \<Rightarrow> Epoll" where
  "Epoll_new loop maxevents = \<lparr>ep_maxevents = maxevents, ep_owner = loop, ep_interest = Map.empty\<rparr>"

definition epoll_ctl_add :: "bool \<Rightarrow> int \<Rightarrow> nat \<times> events \<Rightarrow> Epoll \<Rightarrow> bool \<times> Epoll" where
  "epoll_ctl_add add_ok fd ev ep =
     (if add_ok \<and> fd \<notin> dom (ep_interest ep) then (True, ep\<lparr>ep_interest := (ep_interest ep)(fd \<mapsto> ev)\<rparr>) else (False, ep))"

definition epoll_ctl_mod :: "int \<Rightarrow> nat \<times> events \<Rightarrow> Epoll \<Rightarrow> bool \<times> Epoll" where
  "epoll_ctl_mod fd ev ep =
     (if fd \<in> dom (ep_interest ep) then (True, ep\<lparr>ep_interest := (ep_interest ep)(fd \<mapsto> ev)\<rparr>) else (False, ep))"

definition epoll_ctl_del :: "int \<Rightarrow> Epoll \<Rightarrow> bool \<times> Epoll" where
  "epoll_ctl_del fd ep =
     (if fd \<in> dom (ep_interest ep) then (True, ep\<lparr>ep_interest := (ep_interest ep)(fd := None)\<rparr>) else (False, ep))"

text \<open>
  \<open>UpdateChannel\<close> tests \<open>owner_ != owner_\<close> before \<open>!owner_\<close>; a poller always has a loop, so
  that its call of \<open>AddChannel\<close> is never reached.
\<close>

definition UpdateChannel :: "nat \<Rightarrow> Epoll \<times> 'cb Channel \<Rightarrow> bool \<times> Epoll \<times> 'cb Channel" where
  "UpdateChannel c st = (case st of (ep, ch) \<Rightarrow>
     if ch_owner ch \<noteq> Some (ep_owner ep) then (False, ep, ch)
     else let (ok, ep) = epoll_ctl_mod (ch_fd ch) (c, ch_events ch) ep in (ok, ep, ch))"

definition AddChannel :: "bool \<Rightarrow> nat \<Rightarrow> Epoll \<times> 'cb Channel \<Rightarrow> bool \<times> Epoll \<times> 'cb Channel" where
  "AddChannel add_ok c st = (case st of (ep, ch) \<Rightarrow>
     if ch_owner ch = Some (ep_owner ep) then UpdateChannel c (ep, ch)
     else if ch_owner ch = None then
       let ch = ch\<lparr>ch_owner := Some (ep_owner ep)\<rparr>;
           (ok, ep) = epoll_ctl_add add_ok (ch_fd ch) (c, ch_events ch) ep
       in (ok, ep, ch)
     else (False, ep, ch))"

definition DeleteChannel :: "Epoll \<times> 'cb Channel \<Rightarrow> bool \<times> Epoll \<times> 'cb Channel" where
  "DeleteChannel st = (case st of (ep, ch) \<Rightarrow>
     if ch_owner ch \<noteq> Some (ep_owner ep) then (False, ep, ch)
     else let (ok, ep) = epoll_ctl_del (ch_fd ch) ep
          in if ok then (True, ep, ch\<lparr>ch_owner := None\<rparr>) else (False, ep, ch))"

text \<open>
  \<open>ready\<close> is what the kernel has to report: a pointer and the events for each ready
  descriptor, or \<open>None\<close> when \<open>epoll_wait\<close> fails, which it also does for a maximum that is not
  positive. Every pointer it stores is dereferenced, so one that is not a live channel is
  undefined behaviour.
\<close>

fun collect_active ::
  "(nat \<times> events) list \<Rightarrow> (nat \<rightharpoonup> 'cb Channel) \<Rightarrow> (nat list \<times> (nat \<rightharpoonup> 'cb Channel)) res" where
  "collect_active [] chans = Inr ([], chans)"
| "collect_active ((c, ev) # evs) chans = (case chans c of
     None \<Rightarrow> Inl UB
   | Some ch \<Rightarrow> rbind (collect_active evs (chans(c \<mapsto> SetActiveEvents ev ch))) (\<lambda>(cs, chans). Inr (c # cs, chans)))"

definition Poll ::
  "Epoll \<Rightarrow> int \<Rightarrow> (nat \<times> events) list option \<Rightarrow> (nat \<rightharpoonup> 'cb Channel) \<Rightarrow>
   (int \<times> nat list \<times> (nat \<rightharpoonup> 'cb Channel)) res" where
  "Poll ep maxevents ready chans =
     (let maxevents = min maxevents (ep_maxevents ep) in
      case ready of
        None \<Rightarrow> Inr (-1, [], chans)
      | Some evs \<Rightarrow>
          if maxevents \<le> 0 then Inr (-1, [], chans)
          else let stored = take (nat maxevents) evs
               in rbind (collect_active stored chans) (\<lambda>(cs, chans). Inr (int (length stored), cs, chans)))"

section \<open>Channel operations on the poller\<close>

definition Channel_new :: "Epoll option \<Rightarrow> bool \<Rightarrow> nat \<Rightarrow> int \<Rightarrow> Epoll option \<times> 'cb Channel" where
  "Channel_new loop add_ok c fd =
     (let ch = \<lparr>ch_read_callback = None, ch_write_callback = None, ch_error_callback = None,
                ch_close_callback = None, ch_save_life = None, ch_fd = fd, ch_events = 0,
                ch_active_events = 0, ch_owner = None, ch_tied = False\<rparr>
      in case loop of None \<Rightarrow> (None, ch)
         | Some ep \<Rightarrow> (let (ok, ep, ch) = AddChannel add_ok c (ep, ch)
             in if \<not> ok then (Some ep, ch) else (Some ep, ch\<lparr>ch_owner := Some (ep_owner ep)\<rparr>)))"

definition SetActive ::
  "bool \<Rightarrow> nat \<Rightarrow> events \<Rightarrow> Epoll \<times> 'cb Channel \<Rightarrow> (Epoll \<times> 'cb Channel) + 'cb channel_mission" where
  "SetActive in_thread c st es = (case es of (ep, ch) \<Rightarrow>
     if elsewhere ch in_thread then Inr (MSetActive st)
     else let ch = ch\<lparr>ch_events := st\<rparr>
          in if ch_owner ch = None then Inl (ep, ch) else Inl (snd (UpdateChannel c (ep, ch))))"

definition RemoveFromLoop :: "Epoll \<times> 'cb Channel \<Rightarrow> Epoll \<times> 'cb Channel" where
  "RemoveFromLoop es = (case es of (ep, ch) \<Rightarrow>
     let (ep, ch) = (if ch_owner ch \<noteq> None then snd (DeleteChannel (ep, ch)) else (ep, ch))
     in (ep, ch\<lparr>ch_owner := None, ch_tied := False\<rparr>))"

definition Channel_destroy :: "'cb Channel \<Rightarrow> 'cb Channel" where
  "Channel_destroy ch = ch\<lparr>ch_owner := None, ch_tied := False\<rparr>"

text \<open>Closing the poller's descriptor ends all registrations.\<close>

definition Epoll_destroy :: "Epoll \<Rightarrow> Epoll" where
  "Epoll_destroy ep = ep\<lparr>ep_interest := Map.empty\<rparr>"

primrec run_channel_mission :: "nat \<Rightarrow> 'cb channel_mission \<Rightarrow> Epoll \<times> 'cb Channel \<Rightarrow> (Epoll \<times> 'cb Channel) + 'cb channel_mission" where
  "run_channel_mission c (MSetReadCallback cb) es = map_sum (\<lambda>ch. (fst es, ch)) id (SetReadCallback True cb (snd es))"
| "run_channel_mission c (MSetWriteCallback cb) es = map_sum (\<lambda>ch. (fst es, ch)) id (SetWriteCallback True cb (snd es))"
| "run_channel_mission c (MSetErrorCallback cb) es = map_sum (\<lambda>ch. (fst es, ch)) id (SetErrorCallback True cb (snd es))"
| "run_channel_mission c (MSetCloseCallback cb) es = map_sum (\<lambda>ch. (fst es, ch)) id (SetCloseCallback True cb (snd es))"
| "run_channel_mission c (MSetActive st) es = SetActive True c st es"

section \<open>Registrations and live channels\<close>

text \<open>
  The world of one loop that is running: its poller and the channels that exist. The destructor of a channel (\<open>Channel_destroy\<close>)
  does not touch the poller, so that it depends on the object which holds the channel whether the
  kernel keeps a pointer to it. A connection's destructor calls \<open>RemoveFromLoop\<close> first (\<open>destroy\<close>). A channel
  that is not registered, because it was removed before or its descriptor was closed, which makes the kernel forget it, may be destroyed as it is
  (\<open>discard\<close>). The other channels outlive the running of the loop: the wake-up and the timer's channel are members of the
  loop, and the acceptor, whose destructor removes nothing, is destroyed after the base thread was
  joined (\<open>TcpServer_destroy\<close>). Destroying a registered channel while its loop polls would leave the pointer behind
  (lemma \<open>destroyed_channel_dangles\<close>).
\<close>

type_synonym 'cb poll_world = "Epoll \<times> (nat \<rightharpoonup> 'cb Channel)"

inductive poller_step :: "'cb poll_world \<Rightarrow> 'cb poll_world \<Rightarrow> bool" where
  create: "chans c = None \<Longrightarrow> Channel_new (Some ep) add_ok c fd = (Some ep', ch) \<Longrightarrow>
     poller_step (ep, chans) (ep', chans(c \<mapsto> ch))"
| activate: "chans c = Some ch \<Longrightarrow> SetActive True c st (ep, ch) = Inl (ep', ch') \<Longrightarrow>
     poller_step (ep, chans) (ep', chans(c \<mapsto> ch'))"
| remove: "chans c = Some ch \<Longrightarrow> RemoveFromLoop (ep, ch) = (ep', ch') \<Longrightarrow>
     poller_step (ep, chans) (ep', chans(c \<mapsto> ch'))"
| destroy: "chans c = Some ch \<Longrightarrow> RemoveFromLoop (ep, ch) = (ep', ch') \<Longrightarrow>
     poller_step (ep, chans) (ep', chans(c := None))"
| discard: "chans c = Some ch \<Longrightarrow> ep_interest ep (ch_fd ch) = None \<Longrightarrow>
     poller_step (ep, chans) (ep, chans(c := None))"
| close_fd: "poller_step (ep, chans) (ep\<lparr>ep_interest := (ep_interest ep)(fd := None)\<rparr>, chans)"
| poll: "Poll ep maxevents (Some evs) chans = Inr (n, cs, chans') \<Longrightarrow> set evs \<subseteq> ran (ep_interest ep) \<Longrightarrow>
     poller_step (ep, chans) (ep, chans')"

inductive poller_reach :: "nat \<Rightarrow> int \<Rightarrow> 'cb poll_world \<Rightarrow> bool" where
  start: "poller_reach loop m (Epoll_new loop m, Map.empty)"
| step: "poller_reach loop m w \<Longrightarrow> poller_step w w' \<Longrightarrow> poller_reach loop m w'"

text \<open>Every registration belongs to a live channel of this loop with that descriptor.\<close>

definition poller_inv :: "'cb poll_world \<Rightarrow> bool" where
  "poller_inv w \<longleftrightarrow> (\<forall>fd c ev. ep_interest (fst w) fd = Some (c, ev) \<longrightarrow>
     (\<exists>ch. snd w c = Some ch \<and> ch_fd ch = fd \<and> ch_owner ch = Some (ep_owner (fst w))))"

lemmas ctl_defs = epoll_ctl_add_def epoll_ctl_mod_def epoll_ctl_del_def

lemma poller_inv_create:
  "poller_inv (ep, chans) \<Longrightarrow> chans c = None \<Longrightarrow> Channel_new (Some ep) add_ok c fd = (Some ep', ch) \<Longrightarrow>
   poller_inv (ep', chans(c \<mapsto> ch))"
  by (fastforce simp: poller_inv_def Channel_new_def AddChannel_def ctl_defs Let_def split: if_splits)

lemma poller_inv_activate:
  "poller_inv (ep, chans) \<Longrightarrow> chans c = Some ch \<Longrightarrow> SetActive True c st (ep, ch) = Inl (ep', ch') \<Longrightarrow>
   poller_inv (ep', chans(c \<mapsto> ch'))"
  by (fastforce simp: poller_inv_def SetActive_def elsewhere_def UpdateChannel_def ctl_defs Let_def split: if_splits)

text \<open>Once removed, a channel has no registration left, so that it may be destroyed.\<close>

lemma RemoveFromLoop_unregisters:
  "poller_inv (ep, chans) \<Longrightarrow> chans c = Some ch \<Longrightarrow> RemoveFromLoop (ep, ch) = (ep', ch') \<Longrightarrow>
   poller_inv (ep', chans(c := None)) \<and> poller_inv (ep', chans(c \<mapsto> ch')) \<and> ch_owner ch' = None"
  by (fastforce simp: poller_inv_def RemoveFromLoop_def DeleteChannel_def ctl_defs Let_def split: if_splits)

lemma poller_inv_discard:
  "poller_inv (ep, chans) \<Longrightarrow> chans c = Some ch \<Longrightarrow> ep_interest ep (ch_fd ch) = None \<Longrightarrow> poller_inv (ep, chans(c := None))"
  by (fastforce simp: poller_inv_def)

lemma destroyed_channel_dangles:
  "0 < maxevents \<Longrightarrow> 0 < ep_maxevents ep \<Longrightarrow> Poll ep maxevents (Some [(c, ev)]) (chans(c := None)) = Inl UB"
  by (simp add: Poll_def Let_def take_Cons')

lemma collect_active_ok:
  "fst ` set evs \<subseteq> dom chans \<Longrightarrow>
   \<exists>chans'. collect_active evs chans = Inr (map fst evs, chans') \<and> dom chans' = dom chans \<and>
     (\<forall>c ch'. chans' c = Some ch' \<longrightarrow> (\<exists>ch. chans c = Some ch \<and> ch_fd ch' = ch_fd ch \<and> ch_owner ch' = ch_owner ch))"
proof (induction evs arbitrary: chans)
  case Nil
  then show ?case by simp
next
  case (Cons x evs)
  obtain c ev ch where x: "x = (c, ev)" "chans c = Some ch"
    using Cons.prems by (cases x) auto
  let ?chans = "chans(c \<mapsto> SetActiveEvents ev ch)"
  have "fst ` set evs \<subseteq> dom ?chans" using Cons.prems by auto
  from Cons.IH [OF this] obtain chans'
    where "collect_active evs ?chans = Inr (map fst evs, chans')" "dom chans' = dom ?chans"
      "\<forall>d ch'. chans' d = Some ch' \<longrightarrow> (\<exists>ch0. ?chans d = Some ch0 \<and> ch_fd ch' = ch_fd ch0 \<and> ch_owner ch' = ch_owner ch0)"
    by blast
  with x show ?case
    by (fastforce simp: SetActiveEvents_def split: if_splits)
qed

lemma poller_inv_live:
  "poller_inv (ep, chans) \<Longrightarrow> set evs \<subseteq> ran (ep_interest ep) \<Longrightarrow> fst ` set evs \<subseteq> dom chans"
  by (fastforce simp: poller_inv_def ran_def)

lemma Poll_ok:
  assumes "poller_inv (ep, chans)" "set evs \<subseteq> ran (ep_interest ep)" "0 < maxevents" "0 < ep_maxevents ep"
  shows "\<exists>chans'. Poll ep maxevents (Some evs) chans =
      Inr (int (length (take (nat (min maxevents (ep_maxevents ep))) evs)),
        map fst (take (nat (min maxevents (ep_maxevents ep))) evs), chans') \<and>
    dom chans' = dom chans \<and> poller_inv (ep, chans')"
proof -
  let ?evs = "take (nat (min maxevents (ep_maxevents ep))) evs"
  have "fst ` set ?evs \<subseteq> dom chans"
    using assms(1,2) set_take_subset [of _ evs] by (intro poller_inv_live) auto
  from collect_active_ok [OF this] obtain chans' where c: "collect_active ?evs chans = Inr (map fst ?evs, chans')"
    "dom chans' = dom chans"
    "\<forall>c ch'. chans' c = Some ch' \<longrightarrow> (\<exists>ch. chans c = Some ch \<and> ch_fd ch' = ch_fd ch \<and> ch_owner ch' = ch_owner ch)"
    by blast
  have "poller_inv (ep, chans')"
    unfolding poller_inv_def
  proof (intro allI impI)
    fix fd d ev
    assume "ep_interest (fst (ep, chans')) fd = Some (d, ev)"
    with assms(1) obtain ch where "chans d = Some ch" "ch_fd ch = fd" "ch_owner ch = Some (ep_owner ep)"
      by (auto simp: poller_inv_def)
    moreover from this c(2) obtain ch' where "chans' d = Some ch'" by (auto simp: dom_def set_eq_iff)
    ultimately show "\<exists>ch. snd (ep, chans') d = Some ch \<and> ch_fd ch = fd \<and> ch_owner ch = Some (ep_owner (fst (ep, chans')))"
      using c(3) by fastforce
  qed
  with c assms show ?thesis
    by (simp add: Poll_def Let_def)
qed

lemma poller_step_inv: "poller_step w w' \<Longrightarrow> poller_inv w \<Longrightarrow> poller_inv w'"
proof (induction rule: poller_step.induct)
  case (poll ep maxevents evs chans n cs chans')
  then show ?case
    using Poll_ok [of ep chans evs maxevents] by (auto simp: Poll_def Let_def split: if_splits)
next
  case (close_fd ep chans fd)
  then show ?case by (auto simp: poller_inv_def)
qed (auto dest: poller_inv_create poller_inv_activate RemoveFromLoop_unregisters poller_inv_discard)

lemma poller_reach_inv: "poller_reach loop m w \<Longrightarrow> poller_inv w \<and> ep_maxevents (fst w) = m"
proof (induction rule: poller_reach.induct)
  case (start loop m)
  then show ?case by (simp add: poller_inv_def Epoll_new_def)
next
  case (step loop m w w')
  have "ep_maxevents (fst w') = ep_maxevents (fst w)"
    using step.hyps(2)
    by (induction rule: poller_step.induct)
      (auto simp: Channel_new_def AddChannel_def UpdateChannel_def SetActive_def RemoveFromLoop_def DeleteChannel_def
        ctl_defs Let_def split: if_splits prod.splits)
  with step poller_step_inv show ?case by metis
qed

section \<open>Properties\<close>

text \<open>
  C14. Whatever channels a loop has created, reconfigured, removed and destroyed before,
  polling dereferences live channels only: every pointer the kernel can hand back belongs to
  a channel that still exists, so \<open>Poll\<close> succeeds and returns the ready channels in the
  kernel's order, at most as many as asked for.
\<close>

theorem Poll_never_dangling:
  assumes "poller_reach loop m (ep, chans)" "set evs \<subseteq> ran (ep_interest ep)" "0 < maxevents" "0 < m"
  shows "\<exists>chans'. Poll ep maxevents (Some evs) chans =
      Inr (int (length (take (nat (min maxevents m)) evs)), map fst (take (nat (min maxevents m)) evs), chans') \<and>
    set (map fst (take (nat (min maxevents m)) evs)) \<subseteq> dom chans'"
proof -
  note r = poller_reach_inv [OF assms(1)]
  from r have inv: "poller_inv (ep, chans)" and m: "ep_maxevents ep = m" by auto
  have "fst ` set (take (nat (min maxevents m)) evs) \<subseteq> dom chans"
    using assms(2) set_take_subset [of _ evs] by (intro poller_inv_live [OF inv]) auto
  with Poll_ok [OF inv assms(2,3)] assms(4) m show ?thesis
    by auto
qed

theorem Poll_never_dangling_witness:
  "\<exists>chans'. Poll (Epoll_new 7 1024\<lparr>ep_interest := Map.empty(5 \<mapsto> (0, 0))\<rparr>) 16 (Some [(0, 0)])
      (Map.empty(0 \<mapsto> snd (Channel_new (Some (Epoll_new 7 1024)) True 0 5) :: unit Channel)) =
      Inr (int (length (take (nat (min 16 1024)) [(0 :: nat, 0 :: events)])),
        map fst (take (nat (min 16 1024)) [(0, 0 :: events)]), chans') \<and>
    set (map fst (take (nat (min 16 1024)) [(0, 0 :: events)])) \<subseteq> dom chans'"
proof -
  have "Channel_new (Some (Epoll_new 7 1024)) True 0 5 =
      (Some (Epoll_new 7 1024\<lparr>ep_interest := Map.empty(5 \<mapsto> (0, 0))\<rparr>),
       snd (Channel_new (Some (Epoll_new 7 1024)) True 0 5) :: unit Channel)"
    by (simp add: Channel_new_def AddChannel_def ctl_defs Epoll_new_def)
  from poller_reach.step [OF poller_reach.start poller_step.create, OF _ this]
  show ?thesis
    by (rule Poll_never_dangling) (simp_all add: ran_def)
qed

end
