(* ===== verification/Net_Acceptor.thy ===== *)
theory Net_Acceptor
  imports Inet_Addr Epoll_Channel
begin

text \<open>
  \<open>adachi::network::Acceptor\<close> (\<^verbatim>\<open>src/acceptor.cpp\<close>): the listening socket with its channel in
  the poller of the base loop, and the loop that takes all waiting connections.
\<close>

section \<open>State and operations\<close>

record 'cb Acceptor =
  ac_socket :: Socket
  ac_channel :: "'cb Channel"
  ac_listen_check :: bool

text \<open>
  The constructor, on the descriptor \<open>socket()\<close> returned; a failed \<open>bind\<close> is only logged. The
  channel is registered from the constructing thread.
\<close>

definition Acceptor_new ::
  "(int \<Rightarrow> sockaddr_in \<Rightarrow> nat \<Rightarrow> int) \<Rightarrow> Epoll \<Rightarrow> bool \<Rightarrow> nat \<Rightarrow> int \<Rightarrow> INetAddress \<Rightarrow> bool \<times> Epoll option \<times> 'cb Acceptor" where
  "Acceptor_new bind ep add_ok c fd listenaddr =
     (let so = CreateNonBlockSocket fd;
          (ep, ch) = Channel_new (Some ep) add_ok c (Socket_Fd so)
      in (BindAddress bind listenaddr so, ep, \<lparr>ac_socket = so, ac_channel = ch, ac_listen_check = False\<rparr>))"

text \<open>
  What a channel operation called from another thread amounts to: the caller waits until the
  owner has run it, which takes a loop that exists.
\<close>

definition wait_for ::
  "bool \<Rightarrow> nat \<Rightarrow> (Epoll \<times> 'cb Channel) + 'cb channel_mission \<Rightarrow> Epoll \<times> 'cb Channel \<Rightarrow> (Epoll \<times> 'cb Channel) res" where
  "wait_for loop_lives c r es = (case r of
     Inl es \<Rightarrow> Inr es
   | Inr m \<Rightarrow> if \<not> loop_lives then Inl UB
       else (case run_channel_mission c m es of Inl es \<Rightarrow> Inr es | Inr _ \<Rightarrow> Inl UB))"

definition Acceptor_Listen ::
  "(int \<Rightarrow> int \<Rightarrow> int) \<Rightarrow> bool \<Rightarrow> bool \<Rightarrow> nat \<Rightarrow> int \<Rightarrow> Epoll \<times> 'cb Acceptor \<Rightarrow> (bool \<times> Epoll \<times> 'cb Acceptor) res" where
  "Acceptor_Listen listen loop_lives in_thread c backlog st = (case st of (ep, ac) \<Rightarrow>
     if Socket_Listen listen backlog (ac_socket ac) then
       let ac = ac\<lparr>ac_listen_check := True\<rparr> in
       rbind (wait_for loop_lives c (SetActive in_thread c kRead (ep, ac_channel ac)) (ep, ac_channel ac)) (\<lambda>(ep, ch).
       Inr (True, ep, ac\<lparr>ac_channel := ch\<rparr>))
     else Inr (False, ep, ac))"

definition IsListening :: "'cb Acceptor \<Rightarrow> bool" where
  "IsListening ac = ac_listen_check ac"

definition Acceptor_SetNewconnectionCallback ::
  "bool \<Rightarrow> bool \<Rightarrow> nat \<Rightarrow> 'cb \<Rightarrow> Epoll \<times> 'cb Acceptor \<Rightarrow> (Epoll \<times> 'cb Acceptor) res" where
  "Acceptor_SetNewconnectionCallback loop_lives in_thread c cb st = (case st of (ep, ac) \<Rightarrow>
     rbind (wait_for loop_lives c (map_sum (\<lambda>ch. (ep, ch)) id (SetReadCallback in_thread cb (ac_channel ac)))
        (ep, ac_channel ac)) (\<lambda>(ep, ch).
     Inr (ep, ac\<lparr>ac_channel := ch\<rparr>)))"

definition Acceptor_Accept :: "acc_result \<Rightarrow> INetAddress \<Rightarrow> int \<times> INetAddress" where
  "Acceptor_Accept r addr = Socket_Accept r addr"

text \<open>
  The read callback: \<open>rs\<close> are the kernel's answers to the coming calls of \<open>accept4\<close>, which is
  \<open>EAGAIN\<close> once they are used up; the result holds those that were not asked for.
\<close>

fun accept_loop ::
  "(int \<Rightarrow> INetAddress \<Rightarrow> int \<Rightarrow> 's \<Rightarrow> 's res) \<Rightarrow> acc_result list \<Rightarrow> 's \<Rightarrow> ('s \<times> acc_result list) res" where
  "accept_loop callback [] st = Inr (st, [])"
| "accept_loop callback (r # rs) st =
     (case Acceptor_Accept r INetAddress_new of (fd, newlink_addr) \<Rightarrow>
        if fd \<ge> 0 then rbind (callback fd newlink_addr 0 st) (accept_loop callback rs)
        else let saveerrno = (case r of AccError e \<Rightarrow> e | _ \<Rightarrow> 0) in
          if saveerrno = EAGAIN \<or> saveerrno = EWOULDBLOCK then Inr (st, rs)
          else if saveerrno = EINTR then accept_loop callback rs st
          else rbind (callback fd newlink_addr saveerrno st) (\<lambda>st. Inr (st, rs)))"

section \<open>What is handed over\<close>

definition interrupted :: "acc_result \<Rightarrow> bool" where
  "interrupted r \<longleftrightarrow> r = AccError EINTR"

primrec is_conn :: "acc_result \<Rightarrow> bool" where
  "is_conn (AccFd fd peer) = True"
| "is_conn (AccError e) = False"

text \<open>The address object the callback sees for a connection.\<close>

definition peer_address :: "sockaddr_in \<Rightarrow> INetAddress" where
  "peer_address peer = \<lparr>ia_addr = peer, ia_len = sizeof_sockaddr_in\<rparr>"

fun hand_over :: "(int \<Rightarrow> INetAddress \<Rightarrow> int \<Rightarrow> 's \<Rightarrow> 's res) \<Rightarrow> acc_result list \<Rightarrow> 's \<Rightarrow> 's res" where
  "hand_over callback [] st = Inr st"
| "hand_over callback (AccFd fd peer # rs) st = rbind (callback (int fd) (peer_address peer) 0 st) (hand_over callback rs)"
| "hand_over callback (AccError e # rs) st = rbind (callback (-1) INetAddress_new e st) (hand_over callback rs)"

lemma Socket_Accept_simps [simp]:
  "Socket_Accept (AccFd fd peer) INetAddress_new = (int fd, peer_address peer)"
  "Socket_Accept (AccError e) INetAddress_new = (-1, INetAddress_new)"
  by (simp_all add: Socket_Accept_def INetAddress_new_def peer_address_def)

lemma accept_loop_conns:
  "\<forall>r \<in> set pre. is_conn r \<or> interrupted r \<Longrightarrow>
   accept_loop callback (pre @ rs) st = rbind (hand_over callback (filter is_conn pre) st) (accept_loop callback rs)"
proof (induction pre arbitrary: st)
  case (Cons r pre)
  then have IH: "accept_loop callback (pre @ rs) = (\<lambda>st. rbind (hand_over callback (filter is_conn pre) st) (accept_loop callback rs))"
    by auto
  from Cons.prems consider fd peer where "r = AccFd fd peer" | "r = AccError EINTR"
    by (cases r) (auto simp: interrupted_def)
  then show ?case
    by cases (simp_all add: IH rbind_assoc EINTR_def EAGAIN_def EWOULDBLOCK_def Acceptor_Accept_def)
qed simp

section \<open>Properties\<close>

text \<open>
  C28. One readiness event of the listening socket takes every waiting connection: interrupted
  calls are repeated, each accepted descriptor is handed to the callback once, in the order
  of arrival and with error 0, and the loop ends at the first other error, which is reported
  to the callback with descriptor -1 unless it only says that no connection is left; later
  answers of the kernel are not consumed.
\<close>

theorem accept_loop_delivers:
  assumes "\<forall>r \<in> set pre. is_conn r \<or> interrupted r" "e \<noteq> EINTR"
  shows "accept_loop callback (pre @ AccError e # rs) st =
    rbind (hand_over callback (filter is_conn pre @ (if e = EAGAIN then [] else [AccError e])) st) (\<lambda>st. Inr (st, rs))"
proof -
  have app: "hand_over callback (xs @ ys) st = rbind (hand_over callback xs st) (hand_over callback ys)" for xs ys st
    by (induction callback xs st rule: hand_over.induct) (simp_all add: rbind_assoc cong: rbind_cong)
  have "accept_loop callback (AccError e # rs) =
      (\<lambda>st. rbind (hand_over callback (if e = EAGAIN then [] else [AccError e]) st) (\<lambda>st. Inr (st, rs)))"
    using assms(2) by (auto simp: EAGAIN_def EWOULDBLOCK_def Acceptor_Accept_def rbind_assoc)
  with accept_loop_conns [OF assms(1), of callback "AccError e # rs" st] show ?thesis by (simp only: app rbind_assoc)
qed

theorem accept_loop_delivers_witness:
  "accept_loop (\<lambda>fd addr e fds. Inr (fds @ [fd])) ([AccFd 5 zero_addr, AccError EINTR, AccFd 6 zero_addr] @ AccError 24 # [AccFd 7 zero_addr]) [] =
    rbind (hand_over (\<lambda>fd addr e fds. Inr (fds @ [fd]))
      (filter is_conn [AccFd 5 zero_addr, AccError EINTR, AccFd 6 zero_addr] @ (if (24 :: int) = EAGAIN then [] else [AccError 24])) [])
      (\<lambda>st. Inr (st, [AccFd 7 zero_addr]))"
  by (rule accept_loop_delivers) (auto simp: interrupted_def EINTR_def)

end
