(* ===== verification/Event_Loop.thy ===== *)
theory Event_Loop
  imports Cxx_Prelude
begin

text \<open>
  \<open>adachi::tool::EventLoop\<close> (\<^verbatim>\<open>src/eventloop.cpp\<close>): the loop's own state, its mission queue
  and wake-up descriptor, and the interleaving of the loop's thread with the threads that
  submit missions to it, wait for them, and stop it. A mission, a \<open>std::function\<close>, is a value of
  the type \<open>'m\<close>; a thread is identified by a number. What the callbacks and missions do to
  connections is the business of the theories that use this one.
\<close>

section \<open>State and member functions\<close>

record 'm EventLoop =
  el_quit :: bool
  el_looping :: bool
  el_missions :: "'m list"
  el_tid :: nat
  el_wakefd :: int
  el_wakecount :: nat
  el_heartbeat :: bool

text \<open>The constructor, on the descriptor \<open>eventfd\<close> returned, in the thread \<open>tid\<close>.\<close>

definition EventLoop_new :: "nat \<Rightarrow> int \<Rightarrow> int \<Rightarrow> 'm EventLoop" where
  "EventLoop_new tid wakefd heartbeat_num =
     \<lparr>el_quit = False, el_looping = False, el_missions = [], el_tid = tid, el_wakefd = wakefd,
      el_wakecount = 0, el_heartbeat = heartbeat_num > 0\<rparr>"

text \<open>
  \<open>WakeUp\<close> adds one to the counter of the descriptor. The kernel refuses that with \<open>EAGAIN\<close> when the
  counter is full, which leaves the descriptor readable; \<open>ok\<close> is false when the call is
  interrupted or fails otherwise, and then the wake-up is lost, since every failure is ignored.
\<close>

definition eventfd_max :: nat where "eventfd_max = 18446744073709551614"

lemma eventfd_max_pos [simp]: "0 < eventfd_max"
  by (simp add: eventfd_max_def)

definition WakeUp :: "bool \<Rightarrow> 'm EventLoop \<Rightarrow> 'm EventLoop" where
  "WakeUp ok el = (if el_wakefd el \<ge> 0 \<and> ok \<and> el_wakecount el < eventfd_max
     then el\<lparr>el_wakecount := el_wakecount el + 1\<rparr> else el)"

text \<open>The read callback of the wake-up channel takes the whole counter, unless the call fails.\<close>

definition wakeup_callback :: "bool \<Rightarrow> 'm EventLoop \<Rightarrow> 'm EventLoop" where
  "wakeup_callback ok el = (if el_wakefd el \<ge> 0 \<and> ok then el\<lparr>el_wakecount := 0\<rparr> else el)"

definition set_quit :: "'m EventLoop \<Rightarrow> 'm EventLoop" where
  "set_quit el = el\<lparr>el_quit := True\<rparr>"

definition StopLoop :: "bool \<Rightarrow> 'm EventLoop \<Rightarrow> 'm EventLoop" where
  "StopLoop ok el = WakeUp ok (set_quit el)"

definition EventLoop_destroy :: "bool \<Rightarrow> 'm EventLoop \<Rightarrow> 'm EventLoop" where
  "EventLoop_destroy ok el = StopLoop ok el"

text \<open>The first two lines of \<open>Loop\<close>, and its last.\<close>

definition Loop_enter :: "'m EventLoop \<Rightarrow> 'm EventLoop" where
  "Loop_enter el = el\<lparr>el_quit := False, el_looping := True\<rparr>"

definition Loop_exit :: "'m EventLoop \<Rightarrow> 'm EventLoop" where
  "Loop_exit el = el\<lparr>el_looping := False\<rparr>"

definition IsInThread :: "nat \<Rightarrow> 'm EventLoop \<Rightarrow> bool" where
  "IsInThread caller el \<longleftrightarrow> el_tid el = caller"

definition IsHeartBeat :: "'m EventLoop \<Rightarrow> bool" where
  "IsHeartBeat el = el_heartbeat el"

definition EventLoop_Status :: "'m EventLoop \<Rightarrow> bool" where
  "EventLoop_Status el = el_quit el"

definition push_mission :: "'m \<Rightarrow> 'm EventLoop \<Rightarrow> 'm EventLoop" where
  "push_mission m el = el\<lparr>el_missions := el_missions el @ [m]\<rparr>"

text \<open>
  \<open>Submit\<close> runs the mission at once on the loop's own thread (\<open>Inl\<close>), and queues it and wakes
  the loop otherwise (\<open>Inr\<close>).
\<close>

definition Submit :: "nat \<Rightarrow> bool \<Rightarrow> 'm \<Rightarrow> 'm EventLoop \<Rightarrow> 'm + 'm EventLoop" where
  "Submit caller ok cb el =
     (if el_tid el = caller then Inl cb else Inr (WakeUp ok (push_mission cb el)))"

text \<open>
  \<open>SubmitAndWait\<close> from another thread makes a \<open>WaitState\<close>, here the number \<open>k\<close>, and submits a closure
  that runs the mission and then sets the state's flag; after that the caller waits for the flag
  (\<open>Inr (el, k)\<close>: the caller is in \<open>cv.wait\<close> on the state \<open>k\<close>). The flags that are set form a set of
  numbers, and \<open>run_closure\<close> is what running a closure does to it.
\<close>

datatype 'm closure = Task 'm | SignalTask 'm nat

definition SubmitAndWait :: "nat \<Rightarrow> bool \<Rightarrow> nat \<Rightarrow> 'm \<Rightarrow> 'm closure EventLoop \<Rightarrow> 'm + 'm closure EventLoop \<times> nat" where
  "SubmitAndWait caller ok k cb el =
     (if el_tid el = caller then Inl cb
      else case Submit caller ok (SignalTask cb k) el of Inl _ \<Rightarrow> Inl cb | Inr el \<Rightarrow> Inr (el, k))"

primrec run_closure :: "'m closure \<Rightarrow> nat set \<Rightarrow> nat set" where
  "run_closure (Task m) flags = flags"
| "run_closure (SignalTask m k) flags = insert k flags"

definition wait_over :: "nat \<Rightarrow> nat set \<Rightarrow> bool" where
  "wait_over k flags \<longleftrightarrow> k \<in> flags"

definition DoCrossThreadMission :: "'m EventLoop \<Rightarrow> 'm list \<times> 'm EventLoop" where
  "DoCrossThreadMission el = (el_missions el, el\<lparr>el_missions := []\<rparr>)"

text \<open>
  What becomes of a mission that is submitted to a loop from another thread, for callers that are
  modelled without the loop's steps: the loop runs it, the loop ends before that, or the loop does
  not exist any more. A thread in \<open>SubmitAndWait\<close> then goes on, waits for ever, or has called
  a member function of a destroyed object.
\<close>

datatype loop_fate = RunsIt | EndsFirst | AlreadyGone

primrec await :: "loop_fate \<Rightarrow> unit res" where
  "await RunsIt = Inr ()"
| "await EndsFirst = Inl Blocked"
| "await AlreadyGone = Inl UB"

section \<open>The loop and the threads around it\<close>

text \<open>
  Where the thread of the loop is: before \<open>Loop\<close>, at the test of \<open>quit_\<close> and in \<open>epoll_wait\<close>,
  handling the ready channels (the wake-up channel among them or not), about to call
  \<open>DoCrossThreadMission\<close>, inside it with the closures still to run, past the loop, and past the end of
  the thread, which destroys the loop: \<open>EventLoopThread\<close> calls \<open>Loop\<close> once.
  A thread that has queued a mission or set \<open>quit_\<close> may not have written the wake-up descriptor yet:
  \<open>lw_waking\<close> counts those. \<open>lw_lost\<close> counts the writes that failed since the queue was last taken,
  \<open>lw_submitted\<close> and \<open>lw_done\<close> record the closures that were queued and run, \<open>lw_states\<close> are the wait states
  made so far, \<open>lw_waiting\<close> those whose thread is still waiting and \<open>lw_flags\<close> those with the flag set.
\<close>

datatype 'm loop_pc = LStart | LPoll | LHandle bool | LDrain | LRun "'m list" | LExit | LGone

record 'm loop_world =
  lw_loop :: "'m closure EventLoop"
  lw_pc :: "'m closure loop_pc"
  lw_waking :: nat
  lw_lost :: nat
  lw_submitted :: "'m closure list"
  lw_done :: "'m closure list"
  lw_states :: "nat set"
  lw_waiting :: "nat set"
  lw_flags :: "nat set"
  lw_stops :: nat

definition loop_init :: "nat \<Rightarrow> int \<Rightarrow> int \<Rightarrow> 'm loop_world" where
  "loop_init tid wakefd hb = \<lparr>lw_loop = EventLoop_new tid wakefd hb, lw_pc = LStart, lw_waking = 0, lw_lost = 0,
     lw_submitted = [], lw_done = [], lw_states = {}, lw_waiting = {}, lw_flags = {}, lw_stops = 0\<rparr>"

text \<open>
  A step of the loop's thread. \<open>ans\<close> is what \<open>epoll_wait\<close> does: it returns (with the wake-up channel ready or
  not, which includes the time-out), is interrupted, or fails; \<open>ok\<close> tells whether reading the
  wake-up descriptor succeeds.
\<close>

datatype poll_answer = PollReturns bool | PollInterrupted | PollFails

definition loop_own :: "poll_answer \<Rightarrow> bool \<Rightarrow> 'm loop_world \<Rightarrow> 'm loop_world option" where
  "loop_own ans ok w = (case lw_pc w of
     LStart \<Rightarrow> Some (w\<lparr>lw_loop := Loop_enter (lw_loop w), lw_pc := LPoll\<rparr>)
   | LPoll \<Rightarrow>
       if el_quit (lw_loop w) then Some (w\<lparr>lw_loop := Loop_exit (lw_loop w), lw_pc := LExit\<rparr>)
       else (case ans of
           PollReturns woken \<Rightarrow> Some (w\<lparr>lw_pc := LHandle woken\<rparr>)
         | PollInterrupted \<Rightarrow> Some w
         | PollFails \<Rightarrow> Some (w\<lparr>lw_loop := Loop_exit (lw_loop w), lw_pc := LExit\<rparr>))
   | LHandle woken \<Rightarrow> Some (w\<lparr>lw_loop := (if woken then wakeup_callback ok (lw_loop w) else lw_loop w), lw_pc := LDrain\<rparr>)
   | LDrain \<Rightarrow> (case DoCrossThreadMission (lw_loop w) of (ms, el) \<Rightarrow>
       Some (w\<lparr>lw_loop := el, lw_pc := LRun ms, lw_lost := 0\<rparr>))
   | LRun ms \<Rightarrow> (case ms of
       [] \<Rightarrow> Some (w\<lparr>lw_pc := LPoll\<rparr>)
     | m # ms \<Rightarrow> Some (w\<lparr>lw_pc := LRun ms, lw_done := lw_done w @ [m], lw_flags := run_closure m (lw_flags w)\<rparr>))
   | LExit \<Rightarrow> Some (w\<lparr>lw_loop := EventLoop_destroy ok (lw_loop w), lw_pc := LGone\<rparr>)
   | LGone \<Rightarrow> None)"

text \<open>
  A step of another thread: the two halves of \<open>Submit\<close>, \<open>SubmitAndWait\<close> and \<open>StopLoop\<close> (the update of
  the loop, then \<open>WakeUp\<close>), and the return from \<open>cv.wait\<close>. A call on a loop that is gone is
  undefined behaviour and not a step.
\<close>

datatype 'm loop_event = ESubmit 'm | ESubmitAndWait 'm nat | EStop | EWake bool | EReturn nat

primrec loop_env :: "'m loop_event \<Rightarrow> 'm loop_world \<Rightarrow> 'm loop_world option" where
  "loop_env (ESubmit m) w = (if lw_pc w = LGone then None
     else Some (w\<lparr>lw_loop := push_mission (Task m) (lw_loop w), lw_waking := lw_waking w + 1,
       lw_submitted := lw_submitted w @ [Task m]\<rparr>))"
| "loop_env (ESubmitAndWait m k) w = (if lw_pc w = LGone \<or> k \<in> lw_states w then None
     else Some (w\<lparr>lw_loop := push_mission (SignalTask m k) (lw_loop w), lw_waking := lw_waking w + 1,
       lw_submitted := lw_submitted w @ [SignalTask m k], lw_states := insert k (lw_states w),
       lw_waiting := insert k (lw_waiting w)\<rparr>))"
| "loop_env EStop w = (if lw_pc w = LGone then None
     else Some (w\<lparr>lw_loop := set_quit (lw_loop w), lw_waking := lw_waking w + 1, lw_stops := lw_stops w + 1\<rparr>))"
| "loop_env (EWake ok) w = (if lw_pc w = LGone \<or> lw_waking w = 0 then None
     else Some (w\<lparr>lw_loop := WakeUp ok (lw_loop w), lw_waking := lw_waking w - 1,
       lw_lost := (if ok then lw_lost w else lw_lost w + 1)\<rparr>))"
| "loop_env (EReturn k) w = (if k \<in> lw_waiting w \<and> wait_over k (lw_flags w)
     then Some (w\<lparr>lw_waiting := lw_waiting w - {k}\<rparr>) else None)"

text \<open>The interleaving, as a step relation and as the run of a schedule.\<close>

inductive loop_step :: "'m loop_world \<Rightarrow> 'm loop_world \<Rightarrow> bool" where
  own: "loop_own ans ok w = Some w' \<Longrightarrow> loop_step w w'"
| env: "loop_env e w = Some w' \<Longrightarrow> loop_step w w'"

datatype 'm turn_of = Own poll_answer bool | Env "'m loop_event"

primrec loop_move :: "'m turn_of \<Rightarrow> 'm loop_world \<Rightarrow> 'm loop_world option" where
  "loop_move (Own ans ok) w = loop_own ans ok w"
| "loop_move (Env e) w = loop_env e w"

primrec loop_run :: "'m turn_of list \<Rightarrow> 'm loop_world \<Rightarrow> 'm loop_world option" where
  "loop_run [] w = Some w"
| "loop_run (mv # mvs) w = (case loop_move mv w of None \<Rightarrow> None | Some w \<Rightarrow> loop_run mvs w)"

inductive_cases loop_stepE: "loop_step w w'"

lemma loop_move_step: "loop_move mv w = Some w' \<Longrightarrow> loop_step w w'"
  by (cases mv) (auto intro: loop_step.intros)

lemma loop_run_append: "loop_run (mvs @ mvs') w = (case loop_run mvs w of None \<Rightarrow> None | Some w \<Rightarrow> loop_run mvs' w)"
  by (induction mvs arbitrary: w) (simp_all split: option.splits)

lemma loop_run_steps: "loop_run mvs w = Some w' \<Longrightarrow> loop_step\<^sup>*\<^sup>* w w'"
  by (induction mvs arbitrary: w)
    (auto split: option.splits intro: converse_rtranclp_into_rtranclp loop_move_step)

lemmas loop_defs = push_mission_def WakeUp_def set_quit_def StopLoop_def wakeup_callback_def DoCrossThreadMission_def
  Loop_enter_def Loop_exit_def EventLoop_destroy_def

text \<open>The two halves are the member functions called from another thread.\<close>

lemma Submit_halves: "caller \<noteq> el_tid el \<Longrightarrow> Submit caller ok m el = Inr (WakeUp ok (push_mission m el))"
  by (simp add: Submit_def)

lemma SubmitAndWait_halves:
  "caller \<noteq> el_tid el \<Longrightarrow> SubmitAndWait caller ok k m el = Inr (WakeUp ok (push_mission (SignalTask m k) el), k)"
  by (simp add: SubmitAndWait_def Submit_def)

section \<open>Invariant\<close>

definition running :: "'m loop_world \<Rightarrow> 'm closure list" where
  "running w = (case lw_pc w of LRun ms \<Rightarrow> ms | _ \<Rightarrow> [])"

definition loop_ended :: "'m loop_world \<Rightarrow> bool" where
  "loop_ended w \<longleftrightarrow> lw_pc w = LExit \<or> lw_pc w = LGone"

text \<open>
  The queue loses nothing and keeps its order; while the counter of the wake-up descriptor is zero, each
  queued mission still has its wake-up to come or has lost it, except right before the queue is taken;
  a flag is set exactly when its closure has run, and only then does a waiting thread return.
\<close>

definition loop_inv :: "int \<Rightarrow> 'm loop_world \<Rightarrow> bool" where
  "loop_inv wakefd w \<longleftrightarrow>
     lw_submitted w = lw_done w @ running w @ el_missions (lw_loop w) \<and>
     el_wakefd (lw_loop w) = wakefd \<and>
     (0 \<le> wakefd \<and> lw_pc w \<noteq> LDrain \<and> el_wakecount (lw_loop w) = 0 \<longrightarrow>
        length (el_missions (lw_loop w)) \<le> lw_waking w + lw_lost w) \<and>
     (el_looping (lw_loop w) \<longleftrightarrow> lw_pc w \<noteq> LStart \<and> \<not> loop_ended w) \<and>
     lw_flags w = fold run_closure (lw_done w) {} \<and>
     lw_states w - lw_waiting w \<subseteq> fold run_closure (lw_done w) {}"

lemma fold_run_closure: "k \<in> fold run_closure ms flags \<longleftrightarrow> k \<in> flags \<or> (\<exists>m. SignalTask m k \<in> set ms)"
proof (induction ms arbitrary: flags)
  case (Cons m ms)
  then show ?case by (cases m) auto
qed simp

lemma loop_inv_init: "loop_inv wakefd (loop_init tid wakefd hb)"
  by (simp add: loop_inv_def loop_init_def EventLoop_new_def running_def loop_ended_def)

lemma run_closure_mono: "flags \<subseteq> run_closure m flags"
  by (cases m) auto

lemma loop_inv_own:
  assumes "loop_own ans ok w = Some w'" "loop_inv wakefd w"
  shows "loop_inv wakefd w'"
proof (cases "lw_pc w")
  case (LRun ms)
  show ?thesis
  proof (cases ms)
    case Nil
    with LRun assms show ?thesis by (auto simp: loop_own_def loop_inv_def running_def loop_ended_def)
  next
    case (Cons m ms')
    have "w' = w\<lparr>lw_pc := LRun ms', lw_done := lw_done w @ [m], lw_flags := run_closure m (lw_flags w)\<rparr>"
      using assms(1) LRun Cons by (simp add: loop_own_def)
    moreover have "lw_states w - lw_waiting w \<subseteq> run_closure m (fold run_closure (lw_done w) {})"
      using assms(2) run_closure_mono [of "fold run_closure (lw_done w) {}" m] unfolding loop_inv_def by blast
    ultimately show ?thesis using assms(2) LRun Cons by (simp add: loop_inv_def running_def loop_ended_def)
  qed
qed (use assms in \<open>clarsimp simp: loop_own_def loop_inv_def running_def loop_ended_def loop_defs split: if_splits poll_answer.splits\<close>)+

lemma loop_env_pc: "loop_env e w = Some w' \<Longrightarrow> lw_pc w' = lw_pc w \<and> lw_done w' = lw_done w \<and> lw_flags w' = lw_flags w"
  by (cases e) (auto split: if_splits)

lemma running_upd [simp]:
  "running (lw_loop_update f w) = running w" "running (lw_waking_update g w) = running w" "running (lw_lost_update g w) = running w"
  "running (lw_submitted_update h w) = running w" "running (lw_states_update i w) = running w"
  "running (lw_waiting_update i w) = running w" "running (lw_stops_update g w) = running w"
  by (simp_all add: running_def)

lemma loop_ended_upd [simp]:
  "loop_ended (lw_loop_update f w) = loop_ended w" "loop_ended (lw_waking_update g w) = loop_ended w"
  "loop_ended (lw_lost_update g w) = loop_ended w" "loop_ended (lw_submitted_update h w) = loop_ended w"
  "loop_ended (lw_states_update i w) = loop_ended w" "loop_ended (lw_waiting_update i w) = loop_ended w"
  "loop_ended (lw_stops_update g w) = loop_ended w"
  by (simp_all add: loop_ended_def)

lemma loop_inv_env:
  assumes "loop_env e w = Some w'" "loop_inv wakefd w"
  shows "loop_inv wakefd w'"
proof (cases e)
  case (ESubmitAndWait m k)
  then have "w' = w\<lparr>lw_loop := push_mission (SignalTask m k) (lw_loop w), lw_waking := lw_waking w + 1,
       lw_submitted := lw_submitted w @ [SignalTask m k], lw_states := insert k (lw_states w),
       lw_waiting := insert k (lw_waiting w)\<rparr>" using assms(1) by (simp split: if_splits)
  moreover have "insert k (lw_states w) - insert k (lw_waiting w) \<subseteq> fold run_closure (lw_done w) {}"
    using assms(2) unfolding loop_inv_def by blast
  ultimately show ?thesis using assms(2) by (simp add: loop_inv_def push_mission_def)
next
  case (EWake ok)
  then have "w' = w\<lparr>lw_loop := WakeUp ok (lw_loop w), lw_waking := lw_waking w - 1,
       lw_lost := (if ok then lw_lost w else lw_lost w + 1)\<rparr>" "0 < lw_waking w" using assms(1) by (simp_all split: if_splits)
  with assms(2) show ?thesis by (cases ok) (simp_all add: loop_inv_def WakeUp_def, auto)
next
  case (EReturn k)
  then have "w' = w\<lparr>lw_waiting := lw_waiting w - {k}\<rparr>" "k \<in> lw_flags w"
    using assms(1) by (simp_all add: wait_over_def split: if_splits)
  moreover from this assms(2) have "lw_states w - (lw_waiting w - {k}) \<subseteq> fold run_closure (lw_done w) {}"
    unfolding loop_inv_def by blast
  ultimately show ?thesis using assms(2) by (simp add: loop_inv_def)
qed (use assms in \<open>clarsimp simp: loop_inv_def push_mission_def set_quit_def split: if_splits\<close>)+

lemma loop_inv_reach: "loop_step\<^sup>*\<^sup>* (loop_init tid wakefd hb) w \<Longrightarrow> loop_inv wakefd w"
  by (induction rule: rtranclp_induct) (auto intro: loop_inv_init loop_inv_own loop_inv_env elim!: loop_stepE)

section \<open>The end of the loop\<close>

lemma ended_own:
  "loop_own ans ok w = Some w' \<Longrightarrow> loop_ended w \<Longrightarrow>
   loop_ended w' \<and> lw_done w' = lw_done w \<and> lw_flags w' = lw_flags w \<and> lw_waiting w' = lw_waiting w"
  by (auto simp: loop_own_def loop_ended_def)

lemma ended_env:
  "loop_env e w = Some w' \<Longrightarrow> loop_ended w \<Longrightarrow> loop_ended w' \<and> lw_done w' = lw_done w \<and> lw_flags w' = lw_flags w \<and>
   (\<forall>k \<in> lw_waiting w. k \<notin> lw_flags w \<longrightarrow> k \<in> lw_waiting w')"
  by (cases e) (auto simp: loop_ended_def wait_over_def split: if_splits)

text \<open>A thread that waits for a closure which a loop has not run when it ends waits for ever.\<close>

lemma stranded_forever:
  "loop_step\<^sup>*\<^sup>* w w' \<Longrightarrow> loop_ended w \<Longrightarrow> k \<in> lw_waiting w \<Longrightarrow> k \<notin> lw_flags w \<Longrightarrow>
   loop_ended w' \<and> k \<in> lw_waiting w' \<and> k \<notin> lw_flags w'"
proof (induction rule: rtranclp_induct)
  case (step y z)
  then have y: "loop_ended y" "k \<in> lw_waiting y" "k \<notin> lw_flags y" by simp_all
  from step.hyps(2) show ?case
    by (cases rule: loop_step.cases) (use ended_own ended_env y in \<open>auto, blast+\<close>)
qed simp

text \<open>How many steps of its own a loop that was told to stop still takes until it ends.\<close>

definition steps_left :: "'m loop_world \<Rightarrow> nat" where
  "steps_left w = (case lw_pc w of
     LPoll \<Rightarrow> 1 | LRun ms \<Rightarrow> length ms + 2 | LDrain \<Rightarrow> length (el_missions (lw_loop w)) + 3
   | LHandle _ \<Rightarrow> length (el_missions (lw_loop w)) + 4 | _ \<Rightarrow> 0)"

definition stopping :: "'m loop_world \<Rightarrow> bool" where
  "stopping w \<longleftrightarrow> loop_ended w \<or> lw_pc w \<noteq> LStart \<and> el_quit (lw_loop w)"

primrec own_moves :: "'m turn_of list \<Rightarrow> nat" where
  "own_moves [] = 0"
| "own_moves (mv # mvs) = (case mv of Own _ _ \<Rightarrow> 1 | Env _ \<Rightarrow> 0) + own_moves mvs"

primrec submissions :: "'m turn_of list \<Rightarrow> nat" where
  "submissions [] = 0"
| "submissions (mv # mvs) = (case mv of Env (ESubmit _) \<Rightarrow> 1 | Env (ESubmitAndWait _ _) \<Rightarrow> 1 | _ \<Rightarrow> 0) + submissions mvs"

lemma stopping_own:
  "loop_own ans ok w = Some w' \<Longrightarrow> stopping w \<Longrightarrow> \<not> loop_ended w \<Longrightarrow> stopping w' \<and> Suc (steps_left w') = steps_left w"
  by (auto simp: loop_own_def stopping_def loop_ended_def steps_left_def loop_defs split: loop_pc.splits list.splits)

lemma loop_env_queue:
  "loop_env e w = Some w' \<Longrightarrow> (el_quit (lw_loop w) \<longrightarrow> el_quit (lw_loop w')) \<and>
   length (el_missions (lw_loop w')) \<le> length (el_missions (lw_loop w)) + submissions [Env e]"
  by (cases e) (auto simp: loop_defs split: if_splits)

lemma stopping_env:
  assumes "loop_env e w = Some w'" "stopping w"
  shows "stopping w' \<and> steps_left w' \<le> steps_left w + submissions [Env e]"
  using loop_env_pc [OF assms(1)] loop_env_queue [OF assms(1)] assms(2)
  by (cases "lw_pc w") (simp_all add: stopping_def loop_ended_def steps_left_def)

lemma loop_run_ended: "loop_run mvs w = Some w' \<Longrightarrow> loop_ended w \<Longrightarrow> loop_ended w'"
proof (induction mvs arbitrary: w)
  case (Cons mv mvs)
  then show ?case by (cases mv) (auto split: option.splits dest: ended_own ended_env)
qed simp

lemma stopping_ends:
  "loop_run mvs w = Some w' \<Longrightarrow> stopping w \<Longrightarrow> steps_left w + submissions mvs \<le> own_moves mvs \<Longrightarrow> loop_ended w'"
proof (induction mvs arbitrary: w)
  case Nil
  then show ?case by (auto simp: stopping_def steps_left_def loop_ended_def split: loop_pc.splits)
next
  case (Cons mv mvs)
  then obtain w1 where w1: "loop_move mv w = Some w1" "loop_run mvs w1 = Some w'" by (auto split: option.splits)
  show ?case
  proof (cases mv)
    case (Own ans ok)
    show ?thesis
    proof (cases "loop_ended w")
      case True
      with w1(1) Own ended_own [of ans ok w w1] have "loop_ended w1" by simp
      with w1(2) show ?thesis by (rule loop_run_ended)
    next
      case False
      with stopping_own w1(1) Own Cons.prems(2) have "stopping w1" "Suc (steps_left w1) = steps_left w" by auto
      with Cons.IH [OF w1(2)] Cons.prems(3) Own show ?thesis by simp
    qed
  next
    case (Env e)
    with stopping_env w1(1) Cons.prems(2) have "stopping w1" "steps_left w1 \<le> steps_left w + submissions [Env e]" by auto
    with Cons.IH [OF w1(2)] Cons.prems(3) Env show ?thesis by simp
  qed
qed

text \<open>A whole pass after a poll that returned runs everything that was queued.\<close>

lemma run_queue:
  "lw_pc w = LRun ms \<Longrightarrow> \<exists>w'. loop_run (replicate (Suc (length ms)) (Own ans ok)) w = Some w' \<and> lw_pc w' = LPoll \<and> lw_done w' = lw_done w @ ms"
proof (induction ms arbitrary: w)
  case (Cons m ms)
  let ?w = "w\<lparr>lw_pc := LRun ms, lw_done := lw_done w @ [m], lw_flags := run_closure m (lw_flags w)\<rparr>"
  from Cons.IH [of ?w] Cons.prems show ?case by (simp add: loop_own_def)
qed (simp add: loop_own_def)

lemma pass_runs_queue:
  assumes "lw_pc w = LPoll" "\<not> el_quit (lw_loop w)"
  shows "\<exists>w'. loop_run (replicate (length (el_missions (lw_loop w)) + 4) (Own (PollReturns woken) ok)) w = Some w' \<and>
    lw_pc w' = LPoll \<and> lw_done w' = lw_done w @ el_missions (lw_loop w)"
proof -
  let ?el = "if woken then wakeup_callback ok (lw_loop w) else lw_loop w"
  let ?w = "w\<lparr>lw_loop := ?el\<lparr>el_missions := []\<rparr>, lw_pc := LRun (el_missions (lw_loop w)), lw_lost := 0\<rparr>"
  have el: "el_missions (wakeup_callback ok (lw_loop w)) = el_missions (lw_loop w)" by (simp add: wakeup_callback_def)
  have "loop_run (replicate 3 (Own (PollReturns woken) ok)) w = Some ?w"
    using assms by (simp add: numeral_eq_Suc loop_own_def DoCrossThreadMission_def el)
  moreover have "replicate (length (el_missions (lw_loop w)) + 4) (Own (PollReturns woken) ok :: 'a turn_of) =
      replicate 3 (Own (PollReturns woken) ok) @ replicate (Suc (length (el_missions (lw_loop w)))) (Own (PollReturns woken) ok)"
    by (simp add: replicate_add [symmetric] del: replicate_Suc)
  ultimately have "loop_run (replicate (length (el_missions (lw_loop w)) + 4) (Own (PollReturns woken) ok)) w =
      loop_run (replicate (Suc (length (el_missions (lw_loop w)))) (Own (PollReturns woken) ok)) ?w"
    by (simp only: loop_run_append option.case)
  with run_queue [of ?w "el_missions (lw_loop w)" "PollReturns woken" ok] show ?thesis by (simp del: replicate_Suc)
qed

section \<open>Properties\<close>

text \<open>Runs are computed from their schedules.\<close>

lemmas run_simps = loop_own_def loop_init_def EventLoop_new_def loop_defs running_def wait_over_def

text \<open>
  C9. Missions run in the order they were queued and each exactly once: under every
  interleaving of submitting and waiting threads with the loop, the closures queued so far are those that
  have run, followed by those the loop is about to run, followed by those still in the queue; and
  a thread that has returned from \<open>SubmitAndWait\<close> returned after its mission had run.
\<close>

theorem missions_fifo:
  assumes "loop_step\<^sup>*\<^sup>* (loop_init tid wakefd hb) w"
  shows "lw_submitted w = lw_done w @ running w @ el_missions (lw_loop w) \<and>
    (\<forall>k \<in> lw_states w - lw_waiting w. \<exists>m. SignalTask m k \<in> set (lw_done w))"
  using loop_inv_reach [OF assms] fold_run_closure [of _ "lw_done w" "{}"] by (auto simp: loop_inv_def)

text \<open>A schedule: three missions from other threads, the first one waited for; the loop has run it and taken the second.\<close>

definition sample_schedule :: "nat turn_of list" where
  "sample_schedule = [Own (PollReturns False) True, Env (ESubmitAndWait 1 0), Env (ESubmit 2), Env (EWake False), Env (EWake True),
     Own (PollReturns True) True, Own (PollReturns True) True, Own (PollReturns True) True, Env (ESubmit 3),
     Own (PollReturns True) True, Env (EReturn 0)]"

lemma sample_run:
  "\<exists>w. loop_run sample_schedule (loop_init 1 5 0) = Some w \<and> lw_done w = [SignalTask 1 0] \<and> running w = [Task 2] \<and>
     el_missions (lw_loop w) = [Task 3] \<and> lw_states w = {0} \<and> lw_waiting w = {} \<and> lw_submitted w = [SignalTask 1 0, Task 2, Task 3] \<and>
     lw_waking w = 1 \<and> lw_lost w = 0 \<and> el_wakecount (lw_loop w) = 0"
  by (simp add: sample_schedule_def run_simps)

theorem missions_fifo_witness:
  "\<exists>w :: nat loop_world. lw_done w = [SignalTask 1 0] \<and> running w = [Task 2] \<and> el_missions (lw_loop w) = [Task 3] \<and>
     lw_submitted w = lw_done w @ running w @ el_missions (lw_loop w) \<and>
     (\<forall>k \<in> lw_states w - lw_waiting w. \<exists>m. SignalTask m k \<in> set (lw_done w)) \<and> 0 \<in> lw_states w - lw_waiting w"
proof -
  obtain w where w: "loop_run sample_schedule (loop_init 1 5 0) = Some w" "lw_done w = [SignalTask 1 0]" "running w = [Task 2]"
    "el_missions (lw_loop w) = [Task 3]" "lw_states w = {0}" "lw_waiting w = {}"
    using sample_run by blast
  from missions_fifo [OF loop_run_steps [OF w(1)]] w(2-) show ?thesis by (intro exI [of _ w]) simp
qed

text \<open>
  C8. No wake-up is lost but by a failed call: whenever missions are queued and the loop is not just about to take
  the queue, the wake-up descriptor is readable, or every queued mission has its own write of the
  descriptor still to come or failed since the queue was last taken. So without failed
  writes the poll ends at once, or the write that ends it is on its way. And if writes have failed,
  the missions are only late: the pass that follows the return of the poll, be it for its time-out,
  runs everything that is queued.
\<close>

theorem no_lost_wakeup:
  assumes "loop_step\<^sup>*\<^sup>* (loop_init tid wakefd hb) w" "0 \<le> wakefd"
  shows "(lw_pc w \<noteq> LDrain \<longrightarrow> 0 < el_wakecount (lw_loop w) \<or> length (el_missions (lw_loop w)) \<le> lw_waking w + lw_lost w) \<and>
    (lw_pc w = LPoll \<and> \<not> el_quit (lw_loop w) \<longrightarrow>
      (\<exists>w'. loop_run (replicate (length (el_missions (lw_loop w)) + 4) (Own (PollReturns woken) ok)) w = Some w' \<and>
        lw_pc w' = LPoll \<and> lw_done w' = lw_done w @ el_missions (lw_loop w)))"
  using loop_inv_reach [OF assms(1)] assms(2) pass_runs_queue [of w woken ok] by (auto simp: loop_inv_def)

theorem no_lost_wakeup_witness:
  "\<exists>w w' :: nat loop_world. loop_run [Own (PollReturns False) True, Env (ESubmit 7), Env (ESubmit 8), Env (EWake False)] (loop_init 1 5 0) = Some w \<and>
     lw_pc w = LPoll \<and> el_missions (lw_loop w) = [Task 7, Task 8] \<and> el_wakecount (lw_loop w) = 0 \<and> lw_lost w = 1 \<and>
     length (el_missions (lw_loop w)) \<le> lw_waking w + lw_lost w \<and>
     loop_run (replicate (length (el_missions (lw_loop w)) + 4) (Own (PollReturns False) True)) w = Some w' \<and>
     lw_pc w' = LPoll \<and> lw_done w' = lw_done w @ el_missions (lw_loop w)"
proof -
  let ?i = "loop_init 1 5 0 :: nat loop_world"
  obtain w where w: "loop_run [Own (PollReturns False) True, Env (ESubmit 7), Env (ESubmit 8), Env (EWake False)] ?i = Some w"
    and pc: "lw_pc w = LPoll" "el_missions (lw_loop w) = [Task 7, Task 8]" "el_wakecount (lw_loop w) = 0" "lw_lost w = 1" "\<not> el_quit (lw_loop w)"
    by (simp add: run_simps)
  from no_lost_wakeup [OF loop_run_steps [OF w], of False True] pc obtain w' where
    "length (el_missions (lw_loop w)) \<le> lw_waking w + lw_lost w"
    "loop_run (replicate (length (el_missions (lw_loop w)) + 4) (Own (PollReturns False) True)) w = Some w'"
    "lw_pc w' = LPoll" "lw_done w' = lw_done w @ el_missions (lw_loop w)"
    by auto
  with w pc show ?thesis by blast
qed

text \<open>
  C32. A loop that runs and is told to stop ends: from \<open>StopLoop\<close> on, whatever the other threads do and whatever the kernel
  answers, the loop's thread leaves \<open>Loop\<close> after at most as many steps of its own as are left of its
  pass, plus one for every mission submitted in the meantime.
\<close>

theorem stop_ends_loop:
  assumes "lw_pc w \<noteq> LStart" "loop_env EStop w = Some w1" "loop_run mvs w1 = Some w2"
    "steps_left w1 + submissions mvs \<le> own_moves mvs"
  shows "loop_ended w2"
proof -
  have "stopping w1" using assms(1,2) by (auto simp: stopping_def set_quit_def split: if_splits)
  from stopping_ends [OF assms(3) this assms(4)] show ?thesis .
qed

theorem stop_ends_loop_witness:
  "\<exists>w w1 w2 :: nat loop_world. loop_run sample_schedule (loop_init 1 5 0) = Some w \<and> loop_env EStop w = Some w1 \<and> steps_left w1 = 3 \<and>
     loop_run [Own PollInterrupted True, Env (ESubmit 4), Own PollInterrupted True, Own PollInterrupted True, Own PollInterrupted True] w1 = Some w2 \<and>
     loop_ended w2"
proof -
  obtain w w1 w2 :: "nat loop_world" where w: "loop_run sample_schedule (loop_init 1 5 0) = Some w" "loop_env EStop w = Some w1"
    "lw_pc w \<noteq> LStart" "steps_left w1 = 3"
    "loop_run [Own PollInterrupted True, Env (ESubmit 4), Own PollInterrupted True, Own PollInterrupted True, Own PollInterrupted True] w1 = Some w2"
    by (simp add: sample_schedule_def run_simps steps_left_def)
  from stop_ends_loop [OF w(3,2,5)] w(4) have "loop_ended w2" by simp
  with w show ?thesis by blast
qed

text \<open>
  C37. A stop request that comes before the loop's first line is lost: \<open>Loop\<close> starts by
  clearing the flag that \<open>StopLoop\<close> has set, so that the loop polls on with the flag unset
  although it was told to stop.
\<close>

theorem stop_before_loop_is_lost:
  "\<exists>w :: 'm loop_world. loop_step\<^sup>*\<^sup>* (loop_init tid wakefd hb) w \<and> lw_stops w = 1 \<and> lw_waking w = 0 \<and>
     lw_pc w = LPoll \<and> \<not> el_quit (lw_loop w)"
proof -
  obtain w :: "'m loop_world" where w: "loop_run [Env EStop, Env (EWake True), Own (PollReturns False) True] (loop_init tid wakefd hb) = Some w"
    "lw_stops w = 1" "lw_waking w = 0" "lw_pc w = LPoll" "\<not> el_quit (lw_loop w)"
    by (simp add: run_simps)
  from loop_run_steps [OF w(1)] w(2-) show ?thesis by blast
qed

text \<open>
  C38. A loop that is stopped leaves missions behind, and with them the threads that wait for them: \<open>SubmitAndWait\<close> may have
  queued its mission while the loop was still running and nobody had asked it to stop, and yet, if the loop
  sees the flag before it next takes the queue, it ends without running the mission, and in
  every continuation the calling thread goes on waiting.
\<close>

theorem stop_strands_waiter:
  "\<exists>w0 w1 :: 'm loop_world. loop_step\<^sup>*\<^sup>* (loop_init tid wakefd hb) w0 \<and> lw_pc w0 = LPoll \<and> lw_stops w0 = 0 \<and>
     el_missions (lw_loop w0) = [SignalTask m k] \<and> k \<in> lw_waiting w0 \<and> lw_waking w0 = 0 \<and>
     loop_step\<^sup>*\<^sup>* w0 w1 \<and> lw_stops w1 = 1 \<and> lw_pc w1 = LExit \<and> (\<forall>w2. loop_step\<^sup>*\<^sup>* w1 w2 \<longrightarrow> k \<in> lw_waiting w2)"
proof -
  obtain w0 w1 :: "'m loop_world" where
    w0: "loop_run [Own (PollReturns False) True, Env (ESubmitAndWait m k), Env (EWake True)] (loop_init tid wakefd hb) = Some w0"
      "lw_pc w0 = LPoll" "lw_stops w0 = 0" "el_missions (lw_loop w0) = [SignalTask m k]" "k \<in> lw_waiting w0" "lw_waking w0 = 0"
    and w1: "loop_run [Env EStop, Own (PollReturns True) True] w0 = Some w1" "lw_pc w1 = LExit" "k \<in> lw_waiting w1" "k \<notin> lw_flags w1"
      "lw_stops w1 = 1"
    by (simp add: run_simps)
  have "k \<in> lw_waiting w2" if "loop_step\<^sup>*\<^sup>* w1 w2" for w2
    using stranded_forever [OF that] w1 by (simp add: loop_ended_def)
  with loop_run_steps [OF w0(1)] loop_run_steps [OF w1(1)] w0 w1 show ?thesis by blast
qed

theorem stop_strands_waiter_witness:
  "\<exists>w0 w1 :: nat loop_world. loop_step\<^sup>*\<^sup>* (loop_init 1 5 0) w0 \<and> lw_pc w0 = LPoll \<and> lw_stops w0 = 0 \<and>
     el_missions (lw_loop w0) = [SignalTask 7 3] \<and> 3 \<in> lw_waiting w0 \<and> lw_waking w0 = 0 \<and>
     loop_step\<^sup>*\<^sup>* w0 w1 \<and> lw_stops w1 = 1 \<and> lw_pc w1 = LExit \<and> (\<forall>w2. loop_step\<^sup>*\<^sup>* w1 w2 \<longrightarrow> 3 \<in> lw_waiting w2)"
  by (rule stop_strands_waiter)

end
