(* ===== verification/Time_Wheel.thy ===== *)
theory Time_Wheel
  imports Epoll_Channel
begin

text \<open>
  \<open>adachi::io::Timer\<close> and \<open>adachi::tool::HeartBeatObj\<close> (\<^verbatim>\<open>src/timer/timer.cpp\<close>,
  \<^verbatim>\<open>src/timer/heartbeatobj.cpp\<close>): the timing wheel that closes idle connections. A slot of
  the wheel holds shared pointers to heartbeat objects; an object lives as long as a shared
  pointer to it exists and closes its connection when it dies.
\<close>

section \<open>State\<close>

record TimerOpt =
  to_heartbeat_num :: int
  to_timeslice :: "int \<times> int"

record HeartBeatObj =
  hb_last_insert_pos :: int
  hb_tcp :: nat

record Timer =
  tm_fd :: int
  tm_wheel :: "nat list list"
  tm_ptr :: int

text \<open>
  The wheel with the objects it points to: \<open>wh_objs\<close> are the heartbeat objects that exist,
  \<open>wh_held\<close> the shared pointers outside the wheel (a local variable, or the copy in a closure
  that waits to run), \<open>wh_conns\<close> the connections that exist, \<open>wh_closed\<close> the connections whose
  \<open>Close\<close> a dying object has called, in order.
\<close>

record Wheel =
  wh_timer :: Timer
  wh_objs :: "nat \<rightharpoonup> HeartBeatObj"
  wh_held :: "nat list"
  wh_conns :: "nat set"
  wh_closed :: "nat list"

definition TimerOpt_new :: "int \<Rightarrow> int \<times> int \<Rightarrow> TimerOpt" where
  "TimerOpt_new heartbeat_num timeslice = \<lparr>to_heartbeat_num = heartbeat_num, to_timeslice = timeslice\<rparr>"

text \<open>
  The constructor, on the descriptor that \<open>timerfd_create\<close> returned, with the channel \<open>c\<close> it
  registers in the poller of its loop and \<open>cb\<close>, the closure it installs there; and the destructor.
\<close>

definition Timer_new ::
  "Epoll \<Rightarrow> bool \<Rightarrow> nat \<Rightarrow> 'cb \<Rightarrow> int \<Rightarrow> int \<Rightarrow> (Timer \<times> Epoll \<times> 'cb Channel) res" where
  "Timer_new ep add_ok c cb heartbeat_num timerfd =
     (if heartbeat_num < 0 then Inl LengthError
      else if timerfd < 0 then Inl RuntimeError
      else case Channel_new (Some ep) add_ok c timerfd of
        (None, _) \<Rightarrow> Inl UB
      | (Some ep, ch) \<Rightarrow>
          (case SetActive True c kRead (ep, ch\<lparr>ch_read_callback := Some cb\<rparr>) of
             Inr _ \<Rightarrow> Inl UB
           | Inl (ep, ch) \<Rightarrow>
               Inr (\<lparr>tm_fd = timerfd, tm_wheel = replicate (nat heartbeat_num) [], tm_ptr = 0\<rparr>, ep, ch)))"

definition Timer_destroy :: "Epoll \<times> 'cb Channel \<Rightarrow> Epoll \<times> 'cb Channel" where
  "Timer_destroy es = (if ch_fd (snd es) \<noteq> 0
     then (case RemoveFromLoop es of (ep, ch) \<Rightarrow> (ep\<lparr>ep_interest := (ep_interest ep)(ch_fd ch := None)\<rparr>, ch))
     else es)"

definition HeartBeatObj_new :: "nat \<Rightarrow> HeartBeatObj" where
  "HeartBeatObj_new tcp = \<lparr>hb_last_insert_pos = -1, hb_tcp = tcp\<rparr>"

section \<open>Shared ownership\<close>

definition referenced :: "Wheel \<Rightarrow> nat \<Rightarrow> bool" where
  "referenced w ob \<longleftrightarrow> ob \<in> set (concat (tm_wheel (wh_timer w))) \<or> ob \<in> set (wh_held w)"

text \<open>The destructor of the object: close the connection if it still exists.\<close>

definition HeartBeatObj_destroy :: "nat \<Rightarrow> Wheel \<Rightarrow> Wheel" where
  "HeartBeatObj_destroy ob w = (case wh_objs w ob of
     None \<Rightarrow> w
   | Some hb \<Rightarrow> w\<lparr>wh_objs := (wh_objs w)(ob := None),
       wh_closed := wh_closed w @ (if hb_tcp hb \<in> wh_conns w then [hb_tcp hb] else [])\<rparr>)"

text \<open>What follows the end of one shared pointer to \<open>ob\<close>.\<close>

definition release :: "nat \<Rightarrow> Wheel \<Rightarrow> Wheel" where
  "release ob w = (if referenced w ob then w else HeartBeatObj_destroy ob w)"

definition set_slot :: "nat \<Rightarrow> nat list \<Rightarrow> Wheel \<Rightarrow> Wheel" where
  "set_slot i obs w = w\<lparr>wh_timer := (wh_timer w)\<lparr>tm_wheel := (tm_wheel (wh_timer w))[i := obs]\<rparr>\<rparr>"

fun clear_slot :: "nat \<Rightarrow> nat list \<Rightarrow> Wheel \<Rightarrow> Wheel" where
  "clear_slot i [] w = w"
| "clear_slot i (ob # obs) w = clear_slot i obs (release ob (set_slot i obs w))"

section \<open>Operations\<close>

definition Tick :: "Wheel \<Rightarrow> Wheel res" where
  "Tick w = (let t = wh_timer w; n = int (length (tm_wheel t)) in
     if tm_ptr t < 0 \<or> n \<le> tm_ptr t then Inl UB
     else let w = clear_slot (nat (tm_ptr t)) (tm_wheel t ! nat (tm_ptr t)) w
          in Inr (w\<lparr>wh_timer := (wh_timer w)\<lparr>tm_ptr := i32 (u64 (i32 (tm_ptr t + 1)) mod n)\<rparr>\<rparr>))"

text \<open>The read callback of the timer's channel: one tick for each expiration the kernel reports.\<close>

fun Ticks :: "nat \<Rightarrow> Wheel \<Rightarrow> Wheel res" where
  "Ticks 0 w = Inr w"
| "Ticks (Suc k) w = rbind (Tick w) (Ticks k)"

definition Timer_read_callback :: "bool \<Rightarrow> rd_result \<Rightarrow> Wheel \<Rightarrow> Wheel res" where
  "Timer_read_callback big rv w = (case rv of
     RdError e \<Rightarrow> if transient e then Inr w else Inl RuntimeError
   | RdBytes bs _ \<Rightarrow> if length bs \<noteq> 8 then Inl RuntimeError
       else Ticks (unat (load_int big bs :: 64 word)) w)"

definition InsertInThread :: "nat \<Rightarrow> Wheel \<Rightarrow> Wheel res" where
  "InsertInThread ob w = (let t = wh_timer w; n = int (length (tm_wheel t)) in
     if n = 0 then Inl UB
     else let insert_pos = i32 (u64 (tm_ptr t - 1 + n) mod n) in
     case wh_objs w ob of
       None \<Rightarrow> Inl UB
     | Some hb \<Rightarrow>
        if hb_last_insert_pos hb \<noteq> insert_pos then
          let w = w\<lparr>wh_objs := (wh_objs w)(ob \<mapsto> hb\<lparr>hb_last_insert_pos := insert_pos\<rparr>)\<rparr>
          in if insert_pos < 0 then Inl UB
             else Inr (set_slot (nat insert_pos) (tm_wheel t ! nat insert_pos @ [ob]) w)
        else Inr w)"

text \<open>
  \<open>Insert\<close> through a shared pointer \<open>ob\<close>; from another thread the closure that is submitted
  keeps a copy of the pointer until it has run (\<open>run_insert\<close>).
\<close>

definition Insert :: "bool \<Rightarrow> nat option \<Rightarrow> Wheel \<Rightarrow> Wheel res" where
  "Insert in_thread ptr w = (case ptr of
     None \<Rightarrow> Inr w
   | Some ob \<Rightarrow> if in_thread then InsertInThread ob w else Inr (w\<lparr>wh_held := wh_held w @ [ob]\<rparr>))"

definition run_insert :: "nat \<Rightarrow> Wheel \<Rightarrow> Wheel res" where
  "run_insert ob w = rbind (InsertInThread ob w) (\<lambda>w.
     Inr (release ob (w\<lparr>wh_held := remove1 ob (wh_held w)\<rparr>)))"

text \<open>
  What \<open>TcpConnection::SaveLifeMechanism\<close> does with the wheel: a fresh object for the
  connection \<open>tcp\<close>, inserted, after which the local pointer ends.
\<close>

definition new_heartbeat :: "bool \<Rightarrow> nat \<Rightarrow> nat \<Rightarrow> Wheel \<Rightarrow> Wheel res" where
  "new_heartbeat in_thread ob tcp w =
     rbind (Insert in_thread (Some ob) (w\<lparr>wh_objs := (wh_objs w)(ob \<mapsto> HeartBeatObj_new tcp)\<rparr>)) (\<lambda>w.
     Inr (release ob w))"

section \<open>Invariant and abstraction\<close>

text \<open>\<open>dist\<close> counts the ticks before the one that clears a slot.\<close>

definition dist :: "Timer \<Rightarrow> int \<Rightarrow> nat" where
  "dist t p = nat ((p - tm_ptr t) mod int (length (tm_wheel t)))"

abbreviation slots :: "Wheel \<Rightarrow> nat list list" where
  "slots w \<equiv> tm_wheel (wh_timer w)"

text \<open>
  An object is in the slot of its last insertion, and the slots of its older insertions are
  cleared earlier; \<open>fresh\<close> are objects that have been created and not been inserted yet. No
  shared pointer is held elsewhere: the server creates and refreshes heartbeats on the loop's
  own thread.
\<close>

definition wheel_ok :: "nat set \<Rightarrow> Wheel \<Rightarrow> bool" where
  "wheel_ok fresh w \<longleftrightarrow>
     0 < length (slots w) \<and> length (slots w) < 2147483648 \<and>
     0 \<le> tm_ptr (wh_timer w) \<and> tm_ptr (wh_timer w) < int (length (slots w)) \<and>
     (\<forall>i < length (slots w). distinct (slots w ! i)) \<and>
     (\<forall>i < length (slots w). \<forall>ob \<in> set (slots w ! i). \<exists>hb. wh_objs w ob = Some hb \<and>
        0 \<le> hb_last_insert_pos hb \<and>
        dist (wh_timer w) (int i) \<le> dist (wh_timer w) (hb_last_insert_pos hb)) \<and>
     (\<forall>ob hb. wh_objs w ob = Some hb \<longrightarrow>
        (if ob \<in> fresh then hb_last_insert_pos hb = -1
         else 0 \<le> hb_last_insert_pos hb \<and> hb_last_insert_pos hb < int (length (slots w)) \<and>
           ob \<in> set (slots w ! nat (hb_last_insert_pos hb)))) \<and>
     wh_held w = []"

abbreviation wheel_inv :: "Wheel \<Rightarrow> bool" where
  "wheel_inv w \<equiv> wheel_ok {} w"

text \<open>The abstract view: how many ticks every object in the wheel has left.\<close>

definition ticks_left :: "Wheel \<Rightarrow> nat \<rightharpoonup> nat" where
  "ticks_left w ob = (case wh_objs w ob of
     None \<Rightarrow> None
   | Some hb \<Rightarrow> if hb_last_insert_pos hb < 0 then None
       else Some (Suc (dist (wh_timer w) (hb_last_insert_pos hb))))"

definition countdown :: "(nat \<rightharpoonup> nat) \<Rightarrow> nat \<rightharpoonup> nat" where
  "countdown m ob = (case m ob of None \<Rightarrow> None | Some k \<Rightarrow> if k \<le> 1 then None else Some (k - 1))"

lemma set_slot_simps [simp]:
  "slots (set_slot i obs w) = (slots w)[i := obs]" "tm_ptr (wh_timer (set_slot i obs w)) = tm_ptr (wh_timer w)"
  "wh_objs (set_slot i obs w) = wh_objs w" "wh_held (set_slot i obs w) = wh_held w"
  "wh_conns (set_slot i obs w) = wh_conns w" "wh_closed (set_slot i obs w) = wh_closed w"
  "tm_fd (wh_timer (set_slot i obs w)) = tm_fd (wh_timer w)"
  by (simp_all add: set_slot_def)

lemma release_timer [simp]:
  "wh_timer (release ob w) = wh_timer w" "wh_held (release ob w) = wh_held w" "wh_conns (release ob w) = wh_conns w"
  by (simp_all add: release_def HeartBeatObj_destroy_def split: option.splits)

lemma clear_slot_timer:
  "i < length (slots w) \<Longrightarrow> slots w ! i = obs \<Longrightarrow>
   wh_timer (clear_slot i obs w) = (wh_timer w)\<lparr>tm_wheel := (slots w)[i := []]\<rparr> \<and>
   wh_held (clear_slot i obs w) = wh_held w \<and> wh_conns (clear_slot i obs w) = wh_conns w"
proof (induction obs arbitrary: w)
  case Nil
  then have "(slots w)[i := []] = slots w" by (metis list_update_id)
  then show ?case by simp
next
  case (Cons ob obs)
  then show ?case by (simp add: set_slot_def)
qed

text \<open>Which objects keep a reference once slot \<open>i\<close> is empty.\<close>

definition elsewhere_ref :: "Wheel \<Rightarrow> nat \<Rightarrow> nat \<Rightarrow> bool" where
  "elsewhere_ref w i ob \<longleftrightarrow> (\<exists>j < length (slots w). j \<noteq> i \<and> ob \<in> set (slots w ! j)) \<or> ob \<in> set (wh_held w)"

definition tcp_of :: "(nat \<rightharpoonup> HeartBeatObj) \<Rightarrow> nat set \<Rightarrow> nat \<Rightarrow> nat list" where
  "tcp_of objs conns ob = (case objs ob of None \<Rightarrow> [] | Some hb \<Rightarrow> if hb_tcp hb \<in> conns then [hb_tcp hb] else [])"

lemma set_tcp_of: "set (tcp_of objs conns ob) = {c \<in> conns. \<exists>hb. objs ob = Some hb \<and> hb_tcp hb = c}"
  by (cases "objs ob") (auto simp: tcp_of_def)

lemma in_slots_update:
  "i < length ss \<Longrightarrow> ob \<in> set (concat (ss[i := obs])) \<longleftrightarrow>
   ob \<in> set obs \<or> (\<exists>j < length ss. j \<noteq> i \<and> ob \<in> set (ss ! j))"
  by (auto simp: set_conv_nth [of "_[_ := _]"] nth_list_update split: if_splits)

lemma referenced_set_slot:
  "i < length (slots w) \<Longrightarrow> ob \<notin> set obs \<Longrightarrow> referenced (set_slot i obs w) ob \<longleftrightarrow> elsewhere_ref w i ob"
  unfolding referenced_def set_slot_simps elsewhere_ref_def by (simp only: in_slots_update) blast

lemma clear_slot_objs:
  assumes "i < length (slots w)" "slots w ! i = obs" "distinct obs"
  shows "wh_objs (clear_slot i obs w) = (\<lambda>ob. if ob \<in> set obs \<and> \<not> elsewhere_ref w i ob then None else wh_objs w ob) \<and>
    wh_closed (clear_slot i obs w) =
      wh_closed w @ concat (map (tcp_of (wh_objs w) (wh_conns w)) (filter (\<lambda>ob. \<not> elsewhere_ref w i ob) obs))"
  using assms
proof (induction obs arbitrary: w)
  case Nil
  then show ?case by auto
next
  case (Cons ob obs)
  let ?w = "release ob (set_slot i obs w)"
  have slot: "i < length (slots ?w)" "slots ?w ! i = obs" "distinct obs" "ob \<notin> set obs"
    using Cons.prems by simp_all
  have ref: "elsewhere_ref ?w i = elsewhere_ref w i"
    by (auto simp: elsewhere_ref_def fun_eq_iff)
  have now: "wh_objs ?w = (if elsewhere_ref w i ob then wh_objs w else (wh_objs w)(ob := None))"
    "wh_closed ?w = wh_closed w @ (if elsewhere_ref w i ob then [] else tcp_of (wh_objs w) (wh_conns w) ob)"
    using Cons.prems slot
    by (auto simp: release_def referenced_set_slot HeartBeatObj_destroy_def tcp_of_def split: option.splits)
  have "tcp_of (wh_objs ?w) (wh_conns w) ob' = tcp_of (wh_objs w) (wh_conns w) ob'" if "ob' \<in> set obs" for ob'
    using slot that by (auto simp: now tcp_of_def)
  then have rest: "map (tcp_of (wh_objs ?w) (wh_conns w)) (filter P obs) = map (tcp_of (wh_objs w) (wh_conns w)) (filter P obs)" for P
    by simp
  show ?case
    using Cons.IH [OF slot(1-3)] by (simp only: ref rest release_timer set_slot_simps clear_slot.simps) (auto simp: now fun_eq_iff)
qed

section \<open>Ticks and insertions\<close>

lemma dist_eq:
  assumes "0 \<le> tm_ptr t" "tm_ptr t < int (length (tm_wheel t))" "0 \<le> p" "p < int (length (tm_wheel t))"
  shows "dist t p = nat (if p < tm_ptr t then p - tm_ptr t + int (length (tm_wheel t)) else p - tm_ptr t)"
proof (cases "p < tm_ptr t")
  case True
  have "(p - tm_ptr t) mod int (length (tm_wheel t)) = (p - tm_ptr t + int (length (tm_wheel t))) mod int (length (tm_wheel t))"
    by simp
  also have "\<dots> = p - tm_ptr t + int (length (tm_wheel t))"
    using assms True by (intro mod_pos_pos_trivial) auto
  finally show ?thesis using True by (simp add: dist_def)
next
  case False
  then show ?thesis using assms by (simp add: dist_def)
qed

lemma next_ptr:
  assumes "0 \<le> x" "x < n" "n < 2147483648"
  shows "i32 (u64 (i32 (x + 1)) mod n) = (if x + 1 = n then 0 else x + (1 :: int))"
  using assms by auto

lemma insert_pos:
  assumes "0 \<le> x" "x < n" "n < 2147483648"
  shows "i32 (u64 (x - 1 + n) mod n) = (if x = 0 then n - 1 else x - (1 :: int))"
proof (cases "x = 0")
  case False
  have "(x - 1 + n) mod n = x - 1" using assms False by simp
  with assms False show ?thesis by simp
qed (use assms in \<open>simp add: zmod_minus1\<close>)

text \<open>The slot that the wheel is about to clear holds exactly the references of the objects that expire.\<close>

lemma expiring_iff:
  assumes "wheel_inv w" "ob \<in> set (slots w ! nat (tm_ptr (wh_timer w)))"
  shows "elsewhere_ref w (nat (tm_ptr (wh_timer w))) ob \<longleftrightarrow> ticks_left w ob \<noteq> Some 1"
proof -
  let ?t = "wh_timer w" and ?i = "nat (tm_ptr (wh_timer w))"
  have b: "0 \<le> tm_ptr ?t" "tm_ptr ?t < int (length (slots w))" "?i < length (slots w)"
    using assms by (auto simp: wheel_ok_def)
  obtain hb where hb: "wh_objs w ob = Some hb" "0 \<le> hb_last_insert_pos hb"
    "hb_last_insert_pos hb < int (length (slots w))" "ob \<in> set (slots w ! nat (hb_last_insert_pos hb))"
    using assms b by (fastforce simp: wheel_ok_def)
  have le: "dist ?t (int j) \<le> dist ?t (hb_last_insert_pos hb)" if "j < length (slots w)" "ob \<in> set (slots w ! j)" for j
    using assms(1) that hb(1) by (fastforce simp: wheel_ok_def)
  have "ticks_left w ob = Some 1 \<longleftrightarrow> hb_last_insert_pos hb = tm_ptr ?t"
    using hb b by (auto simp: ticks_left_def dist_eq)
  moreover have "elsewhere_ref w ?i ob" if "hb_last_insert_pos hb \<noteq> tm_ptr ?t"
    using that hb b unfolding elsewhere_ref_def by (intro disjI1 exI [of _ "nat (hb_last_insert_pos hb)"]) auto
  moreover have "\<not> elsewhere_ref w ?i ob" if "hb_last_insert_pos hb = tm_ptr ?t"
  proof
    assume "elsewhere_ref w ?i ob"
    then obtain j where j: "j < length (slots w)" "j \<noteq> ?i" "ob \<in> set (slots w ! j)"
      using assms(1) by (auto simp: elsewhere_ref_def wheel_ok_def)
    from le [OF j(1,3)] that b j show False by (auto simp: dist_eq split: if_splits)
  qed
  ultimately show ?thesis by blast
qed

lemma wheel_ok_ptr: "wheel_ok fresh w \<Longrightarrow> 0 \<le> tm_ptr (wh_timer w) \<and> tm_ptr (wh_timer w) < int (length (slots w))"
  by (simp add: wheel_ok_def)

lemma wheel_ok_obj:
  "wheel_ok fresh w \<Longrightarrow> wh_objs w ob = Some hb \<Longrightarrow>
   if ob \<in> fresh then hb_last_insert_pos hb = -1
   else 0 \<le> hb_last_insert_pos hb \<and> hb_last_insert_pos hb < int (length (slots w)) \<and>
     ob \<in> set (slots w ! nat (hb_last_insert_pos hb))"
  unfolding wheel_ok_def by blast

lemma wheel_inv_obj:
  "wheel_inv w \<Longrightarrow> wh_objs w ob = Some hb \<Longrightarrow>
   0 \<le> hb_last_insert_pos hb \<and> hb_last_insert_pos hb < int (length (slots w)) \<and>
   ob \<in> set (slots w ! nat (hb_last_insert_pos hb))"
  using wheel_ok_obj [of "{}"] by simp

lemma Tick_eq:
  assumes "wheel_inv w"
  defines "i \<equiv> nat (tm_ptr (wh_timer w))"
  shows "\<exists>w'. Tick w = Inr w' \<and> slots w' = (slots w)[i := []] \<and>
    tm_ptr (wh_timer w') = (if Suc i = length (slots w) then 0 else tm_ptr (wh_timer w) + 1) \<and>
    wh_held w' = [] \<and> wh_conns w' = wh_conns w \<and>
    wh_objs w' = (\<lambda>ob. if ticks_left w ob = Some 1 then None else wh_objs w ob) \<and>
    wh_closed w' = wh_closed w @ concat (map (tcp_of (wh_objs w) (wh_conns w))
      (filter (\<lambda>ob. ticks_left w ob = Some 1) (slots w ! i)))"
proof -
  have b: "0 \<le> tm_ptr (wh_timer w)" "tm_ptr (wh_timer w) < int (length (slots w))"
    "int (length (slots w)) < 2147483648" "i < length (slots w)" "wh_held w = []" "distinct (slots w ! i)"
    using assms by (auto simp: wheel_ok_def)
  have exp: "ticks_left w ob = Some 1 \<longleftrightarrow> ob \<in> set (slots w ! i) \<and> \<not> elsewhere_ref w i ob" for ob
  proof (cases "ob \<in> set (slots w ! i)")
    case True
    then show ?thesis using expiring_iff [OF assms(1)] by (simp add: i_def)
  next
    case False
    have "hb_last_insert_pos hb \<noteq> tm_ptr (wh_timer w)" if "wh_objs w ob = Some hb" for hb
      using wheel_inv_obj [OF assms(1) that] False by (metis i_def)
    moreover have "dist (wh_timer w) (hb_last_insert_pos hb) \<noteq> 0 \<or> hb_last_insert_pos hb = tm_ptr (wh_timer w)"
      if "wh_objs w ob = Some hb" for hb
      using wheel_inv_obj [OF assms(1) that] b by (auto simp: dist_eq)
    ultimately show ?thesis using False by (auto simp: ticks_left_def split: option.splits)
  qed
  have flt: "filter (\<lambda>ob. \<not> elsewhere_ref w i ob) (slots w ! i) = filter (\<lambda>ob. ticks_left w ob = Some 1) (slots w ! i)"
    using exp by (intro filter_cong) auto
  have "i32 (u64 (i32 (tm_ptr (wh_timer w) + 1)) mod int (length (slots w))) =
      (if Suc i = length (slots w) then 0 else tm_ptr (wh_timer w) + 1)"
  proof -
    have "Suc i = length (slots w) \<longleftrightarrow> tm_ptr (wh_timer w) + 1 = int (length (slots w))"
      unfolding i_def using b(1) by arith
    with b show ?thesis by (subst next_ptr) simp_all
  qed
  moreover have "(\<lambda>ob. if ob \<in> set (slots w ! i) \<and> \<not> elsewhere_ref w i ob then None else wh_objs w ob) =
      (\<lambda>ob. if ticks_left w ob = Some 1 then None else wh_objs w ob)"
    by (rule ext) (simp only: exp)
  ultimately show ?thesis
    using b clear_slot_timer [of i w "slots w ! i"] clear_slot_objs [of i w "slots w ! i"]
    by (simp add: Tick_def Let_def flt flip: i_def)
qed

lemma dist_tick:
  assumes "0 \<le> tm_ptr t" "tm_ptr t < int (length (tm_wheel t))" "0 \<le> p" "p < int (length (tm_wheel t))"
    "length (tm_wheel t') = length (tm_wheel t)" "p \<noteq> tm_ptr t"
    "tm_ptr t' = (if Suc (nat (tm_ptr t)) = length (tm_wheel t) then 0 else tm_ptr t + 1)"
  shows "dist t p = Suc (dist t' p)"
proof -
  have "0 \<le> tm_ptr t'" "tm_ptr t' < int (length (tm_wheel t'))"
    using assms by auto
  with assms show ?thesis by (auto simp: dist_eq split: if_splits)
qed

lemma wheel_okI:
  assumes "0 < length (slots w)" "length (slots w) < 2147483648" "0 \<le> tm_ptr (wh_timer w)" "tm_ptr (wh_timer w) < int (length (slots w))"
    "wh_held w = []" "\<And>j. j < length (slots w) \<Longrightarrow> distinct (slots w ! j)"
    "\<And>j ob. j < length (slots w) \<Longrightarrow> ob \<in> set (slots w ! j) \<Longrightarrow> \<exists>hb. wh_objs w ob = Some hb \<and>
      0 \<le> hb_last_insert_pos hb \<and> dist (wh_timer w) (int j) \<le> dist (wh_timer w) (hb_last_insert_pos hb)"
    "\<And>ob hb. wh_objs w ob = Some hb \<Longrightarrow> 0 \<le> hb_last_insert_pos hb \<and> hb_last_insert_pos hb < int (length (slots w)) \<and>
      ob \<in> set (slots w ! nat (hb_last_insert_pos hb))"
  shows "wheel_inv w"
  using assms unfolding wheel_ok_def by simp

lemma wheel_ok_entry:
  "wheel_ok fresh w \<Longrightarrow> j < length (slots w) \<Longrightarrow> ob \<in> set (slots w ! j) \<Longrightarrow>
   \<exists>hb. wh_objs w ob = Some hb \<and> 0 \<le> hb_last_insert_pos hb \<and> dist (wh_timer w) (int j) \<le> dist (wh_timer w) (hb_last_insert_pos hb)"
  unfolding wheel_ok_def by blast

lemma wheel_ok_frame:
  "wheel_ok fresh w \<Longrightarrow> 0 < length (slots w) \<and> length (slots w) < 2147483648 \<and> wh_held w = [] \<and>
   (\<forall>j < length (slots w). distinct (slots w ! j))"
  by (simp add: wheel_ok_def)

text \<open>An object expires at the next tick if it was inserted last into the slot the hand points at.\<close>

lemma expires_next:
  assumes "wheel_inv w" "wh_objs w ob = Some hb"
  shows "ticks_left w ob = Some 1 \<longleftrightarrow> hb_last_insert_pos hb = tm_ptr (wh_timer w)"
  using wheel_inv_obj [OF assms] assms(2) wheel_ok_ptr [OF assms(1)] by (auto simp: ticks_left_def dist_eq)

lemma Tick_dist:
  assumes "wheel_inv w" "slots w' = (slots w)[i := []]"
    "tm_ptr (wh_timer w') = (if Suc (nat (tm_ptr (wh_timer w))) = length (slots w) then 0 else tm_ptr (wh_timer w) + 1)"
    "0 \<le> p" "p < int (length (slots w))" "p \<noteq> tm_ptr (wh_timer w)"
  shows "dist (wh_timer w) p = Suc (dist (wh_timer w') p)"
  using assms wheel_ok_ptr [OF assms(1)] by (intro dist_tick) auto

lemma Tick_ok:
  assumes inv: "wheel_inv w"
  shows "\<exists>w'. Tick w = Inr w' \<and> wheel_inv w' \<and> length (slots w') = length (slots w) \<and>
    ticks_left w' = countdown (ticks_left w) \<and> wh_conns w' = wh_conns w \<and>
    wh_closed w' = wh_closed w @ concat (map (tcp_of (wh_objs w) (wh_conns w))
      (filter (\<lambda>ob. ticks_left w ob = Some 1) (slots w ! nat (tm_ptr (wh_timer w)))))"
proof -
  define i where "i = nat (tm_ptr (wh_timer w))"
  from Tick_eq [OF inv, folded i_def] obtain w' where w': "Tick w = Inr w'" "slots w' = (slots w)[i := []]"
    "tm_ptr (wh_timer w') = (if Suc i = length (slots w) then 0 else tm_ptr (wh_timer w) + 1)"
    "wh_held w' = []" "wh_conns w' = wh_conns w"
    "wh_objs w' = (\<lambda>ob. if ticks_left w ob = Some 1 then None else wh_objs w ob)"
    "wh_closed w' = wh_closed w @ concat (map (tcp_of (wh_objs w) (wh_conns w))
      (filter (\<lambda>ob. ticks_left w ob = Some 1) (slots w ! i)))"
    by blast
  note b = wheel_ok_ptr [OF inv] and dt = Tick_dist [OF inv w'(2) w'(3) [unfolded i_def]]
    and one = expires_next [OF inv] and obj = wheel_inv_obj [OF inv]
  have left: "ticks_left w' ob = countdown (ticks_left w) ob" for ob
  proof (cases "wh_objs w ob")
    case (Some hb)
    then show ?thesis
      using one [OF Some] obj [OF Some] dt [of "hb_last_insert_pos hb"]
      by (cases "hb_last_insert_pos hb = tm_ptr (wh_timer w)") (auto simp: ticks_left_def countdown_def w')
  qed (simp add: ticks_left_def countdown_def w')
  have "wheel_inv w'"
  proof (rule wheel_okI)
    show "\<exists>hb. wh_objs w' ob = Some hb \<and> 0 \<le> hb_last_insert_pos hb \<and> dist (wh_timer w') (int j) \<le> dist (wh_timer w') (hb_last_insert_pos hb)"
      if "j < length (slots w')" "ob \<in> set (slots w' ! j)" for j ob
    proof -
      have j: "j < length (slots w)" "int j \<noteq> tm_ptr (wh_timer w)" "ob \<in> set (slots w ! j)"
        using that b w'(2) by (auto simp: i_def nth_list_update split: if_splits)
      from wheel_ok_entry [OF inv j(1,3)] obtain hb where hb: "wh_objs w ob = Some hb"
        "dist (wh_timer w) (int j) \<le> dist (wh_timer w) (hb_last_insert_pos hb)" by blast
      have "hb_last_insert_pos hb \<noteq> tm_ptr (wh_timer w)" using hb(2) j dt [of "int j"] by (auto simp: dist_def)
      with hb one [OF hb(1)] obj [OF hb(1)] dt [of "int j"] dt [of "hb_last_insert_pos hb"] j show ?thesis
        by (auto simp: w'(6))
    qed
    show "0 \<le> hb_last_insert_pos hb \<and> hb_last_insert_pos hb < int (length (slots w')) \<and>
        ob \<in> set (slots w' ! nat (hb_last_insert_pos hb))" if "wh_objs w' ob = Some hb" for ob hb
      using that obj [of ob hb] one [of ob hb] b by (auto simp: w'(2,6) i_def nth_list_update split: if_splits)
  qed (use wheel_ok_frame [OF inv] w' b in \<open>auto simp: i_def nth_list_update\<close>)
  with w' left show ?thesis by (auto simp: i_def)
qed

text \<open>The slot behind the hand, into which objects are inserted, is cleared last.\<close>

abbreviation back_slot :: "Wheel \<Rightarrow> int" where
  "back_slot w \<equiv> (if tm_ptr (wh_timer w) = 0 then int (length (slots w)) - 1 else tm_ptr (wh_timer w) - 1)"

lemma back_slot_ok:
  assumes "wheel_ok fresh w"
  shows "i32 (u64 (tm_ptr (wh_timer w) - 1 + int (length (slots w))) mod int (length (slots w))) = back_slot w"
    "0 \<le> back_slot w" "back_slot w < int (length (slots w))" "dist (wh_timer w) (back_slot w) = length (slots w) - 1"
proof -
  note b = wheel_ok_ptr [OF assms] wheel_ok_frame [OF assms]
  show "i32 (u64 (tm_ptr (wh_timer w) - 1 + int (length (slots w))) mod int (length (slots w))) = back_slot w"
    using b insert_pos [of "tm_ptr (wh_timer w)" "int (length (slots w))"] by simp
  show p: "0 \<le> back_slot w" "back_slot w < int (length (slots w))" using b by auto
  show "dist (wh_timer w) (back_slot w) = length (slots w) - 1"
    using b p dist_eq [of "wh_timer w" "back_slot w"] by auto
qed

lemma dist_max: "0 < length (tm_wheel t) \<Longrightarrow> dist t p \<le> length (tm_wheel t) - 1"
proof -
  assume *: "0 < length (tm_wheel t)"
  then have "(p - tm_ptr t) mod int (length (tm_wheel t)) < int (length (tm_wheel t))" by (intro pos_mod_bound) simp
  then have "dist t p < length (tm_wheel t)" using * by (simp add: dist_def nat_less_iff)
  then show ?thesis by simp
qed

lemma not_in_back_slot:
  assumes "wheel_ok fresh w" "wh_objs w ob = Some hb" "hb_last_insert_pos hb \<noteq> back_slot w"
  shows "ob \<notin> set (slots w ! nat (back_slot w))"
proof
  note b = back_slot_ok [OF assms(1)] wheel_ok_ptr [OF assms(1)]
  assume "ob \<in> set (slots w ! nat (back_slot w))"
  with b wheel_ok_entry [OF assms(1), of "nat (back_slot w)" ob] assms(2)
  have *: "0 \<le> hb_last_insert_pos hb" "dist (wh_timer w) (back_slot w) \<le> dist (wh_timer w) (hb_last_insert_pos hb)"
    by auto
  moreover have "hb_last_insert_pos hb < int (length (slots w))"
    using wheel_ok_obj [OF assms(1,2)] * by (auto split: if_splits)
  ultimately show False using b assms(3) by (auto simp: dist_eq split: if_splits)
qed

definition inserted :: "nat \<Rightarrow> HeartBeatObj \<Rightarrow> Wheel \<Rightarrow> Wheel" where
  "inserted ob hb w = (if hb_last_insert_pos hb = back_slot w then w else
     set_slot (nat (back_slot w)) (slots w ! nat (back_slot w) @ [ob])
       (w\<lparr>wh_objs := (wh_objs w)(ob \<mapsto> hb\<lparr>hb_last_insert_pos := back_slot w\<rparr>)\<rparr>))"

lemma InsertInThread_eq:
  assumes "wheel_ok fresh w" "wh_objs w ob = Some hb"
  shows "InsertInThread ob w = Inr (inserted ob hb w)"
  using back_slot_ok [OF assms(1)] wheel_ok_frame [OF assms(1)] assms(2)
  by (simp add: InsertInThread_def Let_def inserted_def)

lemma inserted_simps:
  assumes "wh_objs w ob = Some hb"
  shows "wh_objs (inserted ob hb w) = (wh_objs w)(ob \<mapsto> hb\<lparr>hb_last_insert_pos := back_slot w\<rparr>)"
    "tm_ptr (wh_timer (inserted ob hb w)) = tm_ptr (wh_timer w)" "length (slots (inserted ob hb w)) = length (slots w)"
    "wh_held (inserted ob hb w) = wh_held w" "wh_conns (inserted ob hb w) = wh_conns w" "wh_closed (inserted ob hb w) = wh_closed w"
    "dist (wh_timer (inserted ob hb w)) = dist (wh_timer w)"
    "j < length (slots w) \<Longrightarrow> slots (inserted ob hb w) ! j =
       (if j = nat (back_slot w) \<and> hb_last_insert_pos hb \<noteq> back_slot w then slots w ! j @ [ob] else slots w ! j)"
  using assms by (auto simp: inserted_def fun_eq_iff dist_def nth_list_update)

lemma inserted_inv:
  assumes inv: "wheel_ok fresh w" and fresh: "fresh \<subseteq> {ob}" and ob: "wh_objs w ob = Some hb"
  shows "wheel_inv (inserted ob hb w)"
proof (rule wheel_okI)
  let ?w = "inserted ob hb w"
  note ins = inserted_simps [OF ob] and b = back_slot_ok [OF inv]
  show "distinct (slots ?w ! j)" if "j < length (slots ?w)" for j
    using that wheel_ok_frame [OF inv] not_in_back_slot [OF inv ob] by (simp add: ins)
  show "\<exists>hb. wh_objs ?w ob' = Some hb \<and> 0 \<le> hb_last_insert_pos hb \<and> dist (wh_timer ?w) (int j) \<le> dist (wh_timer ?w) (hb_last_insert_pos hb)"
    if "j < length (slots ?w)" "ob' \<in> set (slots ?w ! j)" for j ob'
  proof (cases "ob' = ob")
    case True
    with b dist_max [of "wh_timer w" "int j"] wheel_ok_frame [OF inv] show ?thesis by (simp add: ins)
  next
    case False
    with that have "ob' \<in> set (slots w ! j)" by (simp add: ins split: if_splits)
    with wheel_ok_entry [OF inv, of j ob'] that(1) False show ?thesis by (simp add: ins)
  qed
  show "0 \<le> hb_last_insert_pos hb' \<and> hb_last_insert_pos hb' < int (length (slots ?w)) \<and>
      ob' \<in> set (slots ?w ! nat (hb_last_insert_pos hb'))" if "wh_objs ?w ob' = Some hb'" for ob' hb'
  proof (cases "ob' = ob")
    case True
    have "ob \<in> set (slots ?w ! nat (back_slot w))"
      using wheel_ok_obj [OF inv ob] b(2,3) ins(8) [of "nat (back_slot w)"]
      by (cases "hb_last_insert_pos hb = back_slot w") (auto split: if_splits)
    moreover from that True have "hb' = hb\<lparr>hb_last_insert_pos := back_slot w\<rparr>" by (simp add: ins(1))
    then have "back_slot w = hb_last_insert_pos hb'" by simp
    note pos = this
    ultimately show ?thesis using True b(2,3) unfolding ins(3) pos by simp
  next
    case False
    with that have "wh_objs w ob' = Some hb'" by (simp add: ins)
    from wheel_ok_obj [OF inv this] False fresh ins(8) [of "nat (hb_last_insert_pos hb')"] show ?thesis
      by (auto simp: ins(3) split: if_splits)
  qed
qed (use wheel_ok_frame [OF inv] wheel_ok_ptr [OF inv] in \<open>simp_all add: inserted_simps [OF ob]\<close>)

lemma InsertInThread_ok:
  assumes inv: "wheel_ok fresh w" and fresh: "fresh \<subseteq> {ob}" and ob: "wh_objs w ob = Some hb"
  shows "\<exists>w'. InsertInThread ob w = Inr w' \<and> wheel_inv w' \<and> length (slots w') = length (slots w) \<and>
    ticks_left w' = (ticks_left w)(ob \<mapsto> length (slots w)) \<and> wh_conns w' = wh_conns w \<and> wh_closed w' = wh_closed w \<and>
    wh_objs w' = (wh_objs w)(ob \<mapsto> hb\<lparr>hb_last_insert_pos := back_slot w\<rparr>)"
proof -
  note ins = inserted_simps [OF ob] and b = back_slot_ok [OF inv]
  have "Suc (dist (wh_timer w) (back_slot w)) = length (slots w)" using b(4) wheel_ok_frame [OF inv] by linarith
  with b have "ticks_left (inserted ob hb w) = (ticks_left w)(ob \<mapsto> length (slots w))"
    by (auto simp: fun_eq_iff ticks_left_def ins split: option.splits)
  with InsertInThread_eq [OF inv ob] inserted_inv [OF inv fresh ob] show ?thesis
    by (intro exI [of _ "inserted ob hb w"]) (simp add: ins)
qed

section \<open>The watchdog a connection relies on\<close>

text \<open>
  What a connection does with its heartbeat when bytes arrive (\<open>TcpConnection::Read\<close>): lock
  the weak pointer and insert the object again if it still exists.
\<close>

definition refresh :: "nat \<Rightarrow> Wheel \<Rightarrow> Wheel res" where
  "refresh ob w = (if wh_objs w ob = None then Inr w else Insert True (Some ob) w)"

datatype wheel_event = EvTick | EvRefresh nat

definition wheel_step :: "('s \<Rightarrow> 's res) \<Rightarrow> (nat \<Rightarrow> 's \<Rightarrow> 's res) \<Rightarrow> wheel_event \<Rightarrow> 's \<Rightarrow> 's res" where
  "wheel_step tick touch e s = (case e of EvTick \<Rightarrow> tick s | EvRefresh ob \<Rightarrow> touch ob s)"

primrec run_wheel :: "('s \<Rightarrow> 's res) \<Rightarrow> (nat \<Rightarrow> 's \<Rightarrow> 's res) \<Rightarrow> wheel_event list \<Rightarrow> 's \<Rightarrow> 's res" where
  "run_wheel tick touch [] s = Inr s"
| "run_wheel tick touch (e # es) s = rbind (wheel_step tick touch e s) (run_wheel tick touch es)"

abbreviation ticks_in :: "wheel_event list \<Rightarrow> nat" where
  "ticks_in es \<equiv> length (filter (\<lambda>e. e = EvTick) es)"

lemma run_wheel_append:
  "run_wheel tick touch (es @ fs) s = rbind (run_wheel tick touch es s) (run_wheel tick touch fs)"
proof (induction es arbitrary: s)
  case (Cons e es)
  then show ?case by (cases "wheel_step tick touch e s") simp_all
qed simp

locale watchdog =
  fixes inv :: "'s \<Rightarrow> bool"
    and left :: "'s \<Rightarrow> nat \<rightharpoonup> nat"
    and tick :: "'s \<Rightarrow> 's res"
    and touch :: "nat \<Rightarrow> 's \<Rightarrow> 's res"
    and n :: nat
  assumes tick_law: "inv s \<Longrightarrow> \<exists>s'. tick s = Inr s' \<and> inv s' \<and> left s' = countdown (left s)"
    and touch_alive: "inv s \<Longrightarrow> left s ob \<noteq> None \<Longrightarrow>
      \<exists>s'. touch ob s = Inr s' \<and> inv s' \<and> left s' = (left s)(ob \<mapsto> n)"
    and touch_dead: "inv s \<Longrightarrow> left s ob = None \<Longrightarrow> touch ob s = Inr s"
    and left_pos: "inv s \<Longrightarrow> left s ob = Some k \<Longrightarrow> 0 < k"
begin

lemma step_other:
  assumes "inv s" "e \<noteq> EvRefresh ob"
  shows "\<exists>s'. wheel_step tick touch e s = Inr s' \<and> inv s' \<and>
    left s' ob = (if e = EvTick then countdown (left s) ob else left s ob)"
proof (cases e)
  case EvTick
  with tick_law [OF assms(1)] show ?thesis by (auto simp: wheel_step_def)
next
  case (EvRefresh ob')
  with assms touch_alive [OF assms(1), of ob'] touch_dead [OF assms(1), of ob'] show ?thesis
    by (cases "left s ob' = None") (auto simp: wheel_step_def)
qed

lemma idle:
  "inv s \<Longrightarrow> EvRefresh ob \<notin> set es \<Longrightarrow>
   \<exists>s'. run_wheel tick touch es s = Inr s' \<and> inv s' \<and>
     left s' ob = (case left s ob of None \<Rightarrow> None | Some k \<Rightarrow> if ticks_in es < k then Some (k - ticks_in es) else None)"
proof (induction es arbitrary: s)
  case Nil
  then show ?case using left_pos [OF Nil.prems(1), of ob] by (auto split: option.splits)
next
  case (Cons e es)
  then obtain s1 where s1: "wheel_step tick touch e s = Inr s1" "inv s1"
    "left s1 ob = (if e = EvTick then countdown (left s) ob else left s ob)"
    using step_other [of s e ob] by auto
  obtain s2 where "run_wheel tick touch es s1 = Inr s2" "inv s2"
    "left s2 ob = (case left s1 ob of None \<Rightarrow> None | Some k \<Rightarrow> if ticks_in es < k then Some (k - ticks_in es) else None)"
    using Cons.IH [OF s1(2)] Cons.prems by auto
  with s1 show ?case
    by (auto simp: countdown_def split: option.splits)
qed

text \<open>From a refresh on: alive for fewer than \<open>n\<close> further ticks, gone from the \<open>n\<close>-th on.\<close>

lemma lifetime:
  assumes "inv s" "left s ob \<noteq> None" "EvRefresh ob \<notin> set es"
  shows "\<exists>s'. run_wheel tick touch (EvRefresh ob # es) s = Inr s' \<and> inv s' \<and>
    (left s' ob \<noteq> None \<longleftrightarrow> ticks_in es < n)"
proof -
  obtain s1 where s1: "touch ob s = Inr s1" "inv s1" "left s1 ob = Some n"
    using touch_alive [OF assms(1,2)] by auto
  from idle [OF s1(2) assms(3)] s1 show ?thesis
    by (auto simp: wheel_step_def)
qed

text \<open>Refreshed at least once every \<open>n - 1\<close> ticks, an object never expires.\<close>

lemma active:
  "inv s \<Longrightarrow> left s ob = Some n \<Longrightarrow> \<forall>es \<in> set segs. EvRefresh ob \<notin> set es \<and> ticks_in es < n \<Longrightarrow>
   \<exists>s'. run_wheel tick touch (concat (map (\<lambda>es. es @ [EvRefresh ob]) segs)) s = Inr s' \<and> inv s' \<and> left s' ob = Some n"
proof (induction segs arbitrary: s)
  case Nil
  then show ?case by simp
next
  case (Cons es segs)
  obtain s1 where s1: "run_wheel tick touch es s = Inr s1" "inv s1" "left s1 ob \<noteq> None"
    using idle [OF Cons.prems(1), of ob es] Cons.prems by auto
  obtain s2 where s2: "touch ob s1 = Inr s2" "inv s2" "left s2 ob = Some n"
    using touch_alive [OF s1(2,3)] by auto
  from Cons.IH [OF s2(2,3)] Cons.prems(3) s1 s2 show ?case
    by (auto simp: run_wheel_append wheel_step_def)
qed

end

abbreviation wheel_of :: "nat \<Rightarrow> Wheel \<Rightarrow> bool" where
  "wheel_of n w \<equiv> wheel_inv w \<and> length (slots w) = n"

lemma ticks_left_None: "wheel_inv w \<Longrightarrow> ticks_left w ob = None \<longleftrightarrow> wh_objs w ob = None"
  using wheel_inv_obj [of w ob] by (auto simp: ticks_left_def split: option.splits)

interpretation wd: watchdog "wheel_of n" ticks_left Tick refresh n for n
proof
  fix w :: Wheel and ob k
  assume inv: "wheel_of n w"
  show "\<exists>w'. Tick w = Inr w' \<and> wheel_of n w' \<and> ticks_left w' = countdown (ticks_left w)"
    using Tick_ok [of w] inv by auto
  show "\<exists>w'. refresh ob w = Inr w' \<and> wheel_of n w' \<and> ticks_left w' = (ticks_left w)(ob \<mapsto> n)"
    if "ticks_left w ob \<noteq> None"
    using that inv InsertInThread_ok [of "{}" w ob] ticks_left_None [of w ob]
    by (auto simp: refresh_def Insert_def)
  show "refresh ob w = Inr w" if "ticks_left w ob = None"
    using that inv by (simp add: refresh_def ticks_left_None)
  show "0 < k" if "ticks_left w ob = Some k"
    using that by (auto simp: ticks_left_def split: option.splits if_splits)
qed

text \<open>A new object is in the wheel with the full number of ticks.\<close>

lemma new_heartbeat_ok:
  assumes inv: "wheel_inv w" and new: "wh_objs w ob = None"
  shows "\<exists>w'. new_heartbeat True ob tcp w = Inr w' \<and> wheel_of (length (slots w)) w' \<and>
    ticks_left w' = (ticks_left w)(ob \<mapsto> length (slots w)) \<and> wh_conns w' = wh_conns w \<and> wh_closed w' = wh_closed w \<and>
    (\<exists>hb. wh_objs w' ob = Some hb \<and> hb_tcp hb = tcp)"
proof -
  let ?w = "w\<lparr>wh_objs := (wh_objs w)(ob \<mapsto> HeartBeatObj_new tcp)\<rparr>"
  have notin: "ob \<notin> set (slots w ! i)" if "i < length (slots w)" for i
    using inv new that unfolding wheel_ok_def by fastforce
  have "wheel_ok {ob} ?w"
    using inv new notin unfolding wheel_ok_def by (auto simp: HeartBeatObj_new_def)
  from InsertInThread_ok [OF this subset_refl, of "HeartBeatObj_new tcp"] obtain w' where
    w': "InsertInThread ob ?w = Inr w'" "wheel_inv w'" "length (slots w') = length (slots w)"
      "ticks_left w' = (ticks_left ?w)(ob \<mapsto> length (slots w))" "wh_conns w' = wh_conns w" "wh_closed w' = wh_closed w"
      "\<exists>hb. wh_objs w' ob = Some hb \<and> hb_tcp hb = tcp"
    by (auto simp: HeartBeatObj_new_def)
  have "referenced w' ob"
    using w'(7) wheel_inv_obj [OF w'(2)] by (fastforce simp: referenced_def nat_less_iff)
  then have "new_heartbeat True ob tcp w = Inr w'"
    using w'(1) by (simp add: new_heartbeat_def Insert_def release_def)
  moreover have "(ticks_left ?w)(ob \<mapsto> length (slots w)) = (ticks_left w)(ob \<mapsto> length (slots w))"
    by (rule ext) (simp add: ticks_left_def split: option.splits)
  ultimately show ?thesis using w' by auto
qed

section \<open>Properties\<close>

text \<open>A wheel of two slots with one object, inserted last, for the witnesses.\<close>

definition sample_wheel :: Wheel where
  "sample_wheel = \<lparr>wh_timer = \<lparr>tm_fd = 3, tm_wheel = [[], [0]], tm_ptr = 0\<rparr>,
     wh_objs = Map.empty(0 \<mapsto> \<lparr>hb_last_insert_pos = 1, hb_tcp = 9\<rparr>), wh_held = [], wh_conns = {9}, wh_closed = []\<rparr>"

lemma sample_wheel_inv: "wheel_inv sample_wheel"
  by (auto simp: wheel_ok_def sample_wheel_def dist_def less_Suc_eq nth_Cons' split: if_splits)


text \<open>
  C4. The lifetime of a heartbeat: after bytes arrive on a connection its object survives
  fewer than \<open>n\<close> further ticks of a wheel of \<open>n\<close> slots and is gone from the \<open>n\<close>-th on, whatever
  other connections do in between; no operation on the way fails.
\<close>

theorem heartbeat_lifetime:
  assumes "wheel_inv w" "wh_objs w ob \<noteq> None" "EvRefresh ob \<notin> set es"
  shows "\<exists>w'. run_wheel Tick refresh (EvRefresh ob # es) w = Inr w' \<and> wheel_inv w' \<and>
    (wh_objs w' ob \<noteq> None \<longleftrightarrow> ticks_in es < length (slots w))"
proof -
  have "ticks_left w ob \<noteq> None" using assms by (simp add: ticks_left_None)
  from wd.lifetime [OF _ this assms(3)] assms(1) obtain w' where
    "run_wheel Tick refresh (EvRefresh ob # es) w = Inr w'" "wheel_inv w'"
    "ticks_left w' ob \<noteq> None \<longleftrightarrow> ticks_in es < length (slots w)"
    by blast
  then show ?thesis by (simp add: ticks_left_None)
qed

theorem heartbeat_lifetime_witness:
  "\<exists>w'. run_wheel Tick refresh (EvRefresh 0 # [EvTick, EvTick]) sample_wheel = Inr w' \<and> wheel_inv w' \<and>
    (wh_objs w' 0 \<noteq> None \<longleftrightarrow> ticks_in [EvTick, EvTick] < length (slots sample_wheel))"
  by (rule heartbeat_lifetime [OF sample_wheel_inv]) (simp_all add: sample_wheel_def)

text \<open>
  C12. An active connection is never closed by the wheel: if at most \<open>n - 1\<close> ticks pass between
  its reads, its object exists after every read, with \<open>n\<close> ticks left.
\<close>

theorem heartbeat_active:
  assumes "wheel_inv w" "wh_objs w ob \<noteq> None"
    "\<forall>es \<in> set segs. EvRefresh ob \<notin> set es \<and> ticks_in es < length (slots w)"
  shows "\<exists>w'. run_wheel Tick refresh (EvRefresh ob # concat (map (\<lambda>es. es @ [EvRefresh ob]) segs)) w = Inr w' \<and>
    wheel_inv w' \<and> ticks_left w' ob = Some (length (slots w))"
proof -
  have "ticks_left w ob \<noteq> None" using assms by (simp add: ticks_left_None)
  with wd.touch_alive [of w "length (slots w)" ob] assms(1) obtain w1 where w1: "refresh ob w = Inr w1"
    "wheel_of (length (slots w)) w1" "ticks_left w1 ob = Some (length (slots w))"
    by auto
  from wd.active [OF w1(2,3) assms(3)] w1(1) show ?thesis
    by (auto simp: wheel_step_def)
qed

theorem heartbeat_active_witness:
  "\<exists>w'. run_wheel Tick refresh (EvRefresh 0 # concat (map (\<lambda>es. es @ [EvRefresh 0]) [[EvTick], [EvTick]])) sample_wheel = Inr w' \<and>
    wheel_inv w' \<and> ticks_left w' 0 = Some (length (slots sample_wheel))"
  by (rule heartbeat_active [OF sample_wheel_inv]) (simp_all add: sample_wheel_def)

text \<open>
  C13. A tick closes exactly the connections whose time is up: the destructors it runs call
  \<open>Close\<close> on the live connections of the objects with one tick left, and all other objects
  lose one tick and stay.
\<close>

theorem Tick_closes_expired:
  assumes "wheel_inv w"
  shows "\<exists>w' closed. Tick w = Inr w' \<and> wheel_inv w' \<and> ticks_left w' = countdown (ticks_left w) \<and>
    wh_closed w' = wh_closed w @ closed \<and>
    set closed = {c \<in> wh_conns w. \<exists>ob hb. wh_objs w ob = Some hb \<and> hb_tcp hb = c \<and> ticks_left w ob = Some 1}"
proof -
  let ?i = "nat (tm_ptr (wh_timer w))"
  have "ob \<in> set (slots w ! ?i)" if one: "ticks_left w ob = Some 1" for ob
  proof -
    obtain hb where hb: "wh_objs w ob = Some hb" "dist (wh_timer w) (hb_last_insert_pos hb) = 0"
      using one by (cases "wh_objs w ob") (auto simp: ticks_left_def split: if_splits)
    with wheel_inv_obj [OF assms hb(1)] wheel_ok_ptr [OF assms] have "hb_last_insert_pos hb = tm_ptr (wh_timer w)"
      by (auto simp: dist_eq split: if_splits)
    with wheel_inv_obj [OF assms hb(1)] show ?thesis by simp
  qed
  then have "set (concat (map (tcp_of (wh_objs w) (wh_conns w)) (filter (\<lambda>ob. ticks_left w ob = Some 1) (slots w ! ?i)))) =
      {c \<in> wh_conns w. \<exists>ob hb. wh_objs w ob = Some hb \<and> hb_tcp hb = c \<and> ticks_left w ob = Some 1}"
    unfolding set_concat set_map set_filter image_image set_tcp_of by blast
  with Tick_ok [OF assms] show ?thesis by metis
qed

theorem Tick_closes_expired_witness:
  "\<exists>w' closed. Tick sample_wheel = Inr w' \<and> wheel_inv w' \<and> ticks_left w' = countdown (ticks_left sample_wheel) \<and>
    wh_closed w' = wh_closed sample_wheel @ closed \<and>
    set closed = {c \<in> wh_conns sample_wheel. \<exists>ob hb. wh_objs sample_wheel ob = Some hb \<and> hb_tcp hb = c \<and>
      ticks_left sample_wheel ob = Some 1}"
  by (rule Tick_closes_expired [OF sample_wheel_inv])

end
