(* ===== verification/Thread_Pool.thy ===== *)
theory Thread_Pool
  imports Event_Loop Time_Wheel
begin

text \<open>
  \<open>adachi::tool::EventLoopThread\<close> and \<open>adachi::tool::EventLoopThreadPool\<close>
  (\<^verbatim>\<open>src/eventloopthread.cpp\<close>, \<^verbatim>\<open>src/eventloopthreadpool.cpp\<close>): the threads that run the loops
  and how connections are spread over them. A loop is identified by a number; it is a local
  variable of its thread and exists until that thread ends: the type \<open>loops\<close> gives the loops that
  exist, and a call through a pointer to any other is undefined behaviour. What the loops do
  with missions is in \<open>Event_Loop\<close>; here they matter as objects that are started, stopped and joined.
\<close>

section \<open>One thread\<close>

type_synonym loops = "nat \<rightharpoonup> unit EventLoop"

record EventLoopThread =
  et_timeropt :: TimerOpt
  et_maxevents :: int
  et_loop :: "nat option"
  et_joinable :: bool

definition EventLoopThread_new :: "TimerOpt \<Rightarrow> int \<Rightarrow> EventLoopThread" where
  "EventLoopThread_new timeropt maxevents =
     \<lparr>et_timeropt = timeropt, et_maxevents = maxevents, et_loop = None, et_joinable = False\<rparr>"

text \<open>
  The thread's function up to the call of \<open>Loop\<close>: the loop \<open>lp\<close> is constructed on the descriptor \<open>eventfd\<close>
  returned for it, and published. The application's \<open>prework_\<close> runs in between and cannot reach the loop yet.
\<close>

definition thread_begin :: "(nat \<Rightarrow> int) \<Rightarrow> nat \<Rightarrow> EventLoopThread \<times> loops \<Rightarrow> EventLoopThread \<times> loops" where
  "thread_begin evfd lp st = (case st of (et, loops) \<Rightarrow>
     (et\<lparr>et_loop := Some lp\<rparr>, loops(lp \<mapsto> EventLoop_new lp (evfd lp) (to_heartbeat_num (et_timeropt et)))))"

text \<open>The threads whose loops are in \<open>E\<close> come to the first line of \<open>Loop\<close>.\<close>

definition enter_loops :: "nat set \<Rightarrow> loops \<Rightarrow> loops" where
  "enter_loops E loops = (\<lambda>lp. if lp \<in> E then map_option Loop_enter (loops lp) else loops lp)"

text \<open>
  The rest of the thread's function once \<open>Loop\<close> has returned: the pointer is reset, and leaving the function
  destroys the loop. \<open>Loop\<close> returns when its thread has entered it and it was told to stop after that
  (theorem \<open>stop_ends_loop\<close>); a stop that came earlier is lost (theorem \<open>stop_before_loop_is_lost\<close>).
\<close>

definition loop_returns :: "unit EventLoop \<Rightarrow> bool" where
  "loop_returns el \<longleftrightarrow> el_looping el \<and> el_quit el"

definition thread_end :: "nat \<Rightarrow> EventLoopThread \<times> loops \<Rightarrow> (EventLoopThread \<times> loops) res" where
  "thread_end lp st = (case st of (et, loops) \<Rightarrow> (case loops lp of
     None \<Rightarrow> Inr (et, loops)
   | Some el \<Rightarrow> if loop_returns el then Inr (et\<lparr>et_loop := None\<rparr>, loops(lp := None)) else Inl Blocked))"

text \<open>\<open>Start\<close> returns when the new thread has published its loop.\<close>

definition EventLoopThread_Start :: "(nat \<Rightarrow> int) \<Rightarrow> nat \<Rightarrow> EventLoopThread \<times> loops \<Rightarrow> nat \<times> EventLoopThread \<times> loops" where
  "EventLoopThread_Start evfd lp st = (case thread_begin evfd lp st of (et, loops) \<Rightarrow> (lp, et\<lparr>et_joinable := True\<rparr>, loops))"

text \<open>
  \<open>StopLoop\<close> through a pointer. Whether \<open>Loop\<close> returns depends on \<open>quit_\<close> alone (\<open>stop_ends_loop\<close> holds for any outcome of the
  wake-up), so that the write of the descriptor is taken to succeed.
\<close>

definition stop_loop :: "nat \<Rightarrow> loops \<Rightarrow> loops res" where
  "stop_loop lp loops = (case loops lp of None \<Rightarrow> Inl UB | Some el \<Rightarrow> Inr (loops(lp \<mapsto> StopLoop True el)))"

text \<open>\<open>Join\<close> returns when the thread has ended, and never if its loop does not return.\<close>

definition EventLoopThread_Join :: "EventLoopThread \<times> loops \<Rightarrow> (EventLoopThread \<times> loops) res" where
  "EventLoopThread_Join st = (case st of (et, loops) \<Rightarrow>
     if et_joinable et then
       rbind (case et_loop et of None \<Rightarrow> Inr (et, loops) | Some lp \<Rightarrow> thread_end lp (et, loops)) (\<lambda>(et, loops).
       Inr (et\<lparr>et_joinable := False\<rparr>, loops))
     else Inr (et, loops))"

definition EventLoopThread_destroy :: "EventLoopThread \<times> loops \<Rightarrow> loops res" where
  "EventLoopThread_destroy st = (case st of (et, loops) \<Rightarrow>
     rbind (case et_loop et of None \<Rightarrow> Inr loops | Some lp \<Rightarrow> stop_loop lp loops) (\<lambda>loops.
     rbind (EventLoopThread_Join (et, loops)) (\<lambda>(et, loops). Inr loops)))"

section \<open>The pool\<close>

record EventLoopThreadPool =
  tp_pos :: int
  tp_maxevents :: int
  tp_running :: bool
  tp_threads :: "EventLoopThread option list"
  tp_oper_threads :: "nat list"
  tp_num :: int
  tp_maxnum :: int
  tp_timeropt :: TimerOpt

text \<open>
  The threads are held by unique pointers, null before the first \<open>Start\<close>. The callback \<open>prework_\<close>
  is the application's and is not part of the state.
\<close>

definition EventLoopThreadPool_new :: "TimerOpt \<Rightarrow> int \<Rightarrow> EventLoopThreadPool" where
  "EventLoopThreadPool_new timeropt maxevents =
     \<lparr>tp_pos = 0, tp_maxevents = maxevents, tp_running = False, tp_threads = [], tp_oper_threads = [],
      tp_num = 1, tp_maxnum = 1, tp_timeropt = TimerOpt_new (to_heartbeat_num timeropt) (to_timeslice timeropt)\<rparr>"

definition Pool_Size :: "EventLoopThreadPool \<Rightarrow> int" where
  "Pool_Size tp = tp_num tp"

definition Pool_MaxSize :: "EventLoopThreadPool \<Rightarrow> int" where
  "Pool_MaxSize tp = tp_maxnum tp"

definition IsRunning :: "EventLoopThreadPool \<Rightarrow> bool" where
  "IsRunning tp = tp_running tp"

definition GetAllThread :: "EventLoopThreadPool \<Rightarrow> nat list" where
  "GetAllThread tp = tp_oper_threads tp"

definition GetOneThread :: "EventLoopThreadPool \<Rightarrow> (nat option \<times> EventLoopThreadPool) res" where
  "GetOneThread tp =
     (if \<not> tp_running tp then Inr (None, tp)
      else if tp_num tp = 0 then Inl UB
      else let pos = i32 (u32 (tp_pos tp) mod tp_num tp) in
           if pos < 0 \<or> int (length (tp_oper_threads tp)) \<le> pos then Inl UB
           else Inr (Some (tp_oper_threads tp ! nat pos),
                  tp\<lparr>tp_pos := i32 (u32 (i32 (pos + 1)) mod tp_num tp)\<rparr>))"

text \<open>
  \<open>Start\<close>: one new thread per place, whose loops are \<open>lps 0\<close>, \<open>lps 1\<close> and so on. A thread object
  that was in the place, or in a place that \<open>resize\<close> cuts off, is destroyed.
\<close>

primrec destroy_threads :: "EventLoopThread option list \<Rightarrow> loops \<Rightarrow> loops res" where
  "destroy_threads [] loops = Inr loops"
| "destroy_threads (p # ps) loops =
     rbind (case p of None \<Rightarrow> Inr loops | Some et \<Rightarrow> EventLoopThread_destroy (et, loops)) (destroy_threads ps)"

text \<open>\<open>new\<close> is the thread object that \<open>make_unique\<close> builds.\<close>

definition start_slot ::
  "(nat \<Rightarrow> int) \<Rightarrow> EventLoopThread \<Rightarrow> (nat \<Rightarrow> nat) \<Rightarrow> nat \<Rightarrow> EventLoopThread option list \<times> nat list \<times> loops \<Rightarrow>
   (EventLoopThread option list \<times> nat list \<times> loops) res" where
  "start_slot evfd new lps idx st = (case st of (ets, ls, loops) \<Rightarrow>
     rbind (destroy_threads [ets ! idx] loops) (\<lambda>loops.
     case EventLoopThread_Start evfd (lps idx) (new, loops) of (lp, et, loops) \<Rightarrow>
       Inr (ets[idx := Some et], ls[idx := lp], loops)))"

primrec start_threads ::
  "(nat \<Rightarrow> int) \<Rightarrow> EventLoopThread \<Rightarrow> (nat \<Rightarrow> nat) \<Rightarrow> nat \<Rightarrow> EventLoopThread option list \<times> nat list \<times> loops \<Rightarrow>
   (EventLoopThread option list \<times> nat list \<times> loops) res" where
  "start_threads evfd new lps 0 st = Inr st"
| "start_threads evfd new lps (Suc n) st = rbind (start_threads evfd new lps n st) (start_slot evfd new lps n)"

definition Pool_Start :: "(nat \<Rightarrow> int) \<Rightarrow> (nat \<Rightarrow> nat) \<Rightarrow> EventLoopThreadPool \<times> loops \<Rightarrow> (EventLoopThreadPool \<times> loops) res" where
  "Pool_Start evfd lps st = (case st of (tp, loops) \<Rightarrow>
     let n = nat (tp_num tp) in
     rbind (destroy_threads (drop n (tp_threads tp)) loops) (\<lambda>loops.
     rbind (start_threads evfd (EventLoopThread_new (tp_timeropt tp) (tp_maxevents tp)) lps n
       (vec_resize None n (tp_threads tp), vec_resize 0 n (tp_oper_threads tp), loops))
       (\<lambda>(ets, ls, loops).
     Inr (tp\<lparr>tp_maxnum := tp_num tp, tp_threads := ets, tp_oper_threads := ls, tp_running := True\<rparr>, loops))))"

fun stop_all :: "nat list \<Rightarrow> loops \<Rightarrow> loops res" where
  "stop_all [] loops = Inr loops"
| "stop_all (lp # lps) loops = rbind (stop_loop lp loops) (stop_all lps)"

primrec join_all :: "EventLoopThread option list \<Rightarrow> loops \<Rightarrow> (EventLoopThread option list \<times> loops) res" where
  "join_all [] loops = Inr ([], loops)"
| "join_all (p # ps) loops = (case p of
     None \<Rightarrow> Inl UB
   | Some et \<Rightarrow> rbind (EventLoopThread_Join (et, loops)) (\<lambda>(et, loops).
       rbind (join_all ps loops) (\<lambda>(ps, loops). Inr (Some et # ps, loops))))"

definition Pool_Close :: "EventLoopThreadPool \<times> loops \<Rightarrow> (EventLoopThreadPool \<times> loops) res" where
  "Pool_Close st = (case st of (tp, loops) \<Rightarrow>
     if length (tp_oper_threads tp) < length (tp_threads tp) then Inl UB
     else rbind (stop_all (take (length (tp_threads tp)) (tp_oper_threads tp)) loops) (\<lambda>loops.
     rbind (join_all (tp_threads tp) loops) (\<lambda>(ets, loops).
     Inr (tp\<lparr>tp_running := False, tp_threads := ets\<rparr>, loops))))"

definition SetSize :: "int \<Rightarrow> EventLoopThreadPool \<Rightarrow> EventLoopThreadPool" where
  "SetSize num tp = (if tp_running tp then tp\<lparr>tp_num := max (min num (tp_maxnum tp)) 1\<rparr>
     else tp\<lparr>tp_num := max 1 num\<rparr>)"

section \<open>Invariant\<close>

definition pool_inv :: "EventLoopThreadPool \<Rightarrow> bool" where
  "pool_inv tp \<longleftrightarrow> 1 \<le> tp_num tp \<and> tp_num tp < 2147483648 \<and> 0 \<le> tp_pos tp \<and> tp_pos tp < 2147483648 \<and>
     (tp_running tp \<longrightarrow> tp_num tp \<le> tp_maxnum tp \<and> int (length (tp_oper_threads tp)) = tp_maxnum tp)"

text \<open>A pool that was never started, or closed since: none of its threads runs.\<close>

definition idle_thread :: "EventLoopThread option \<Rightarrow> bool" where
  "idle_thread p \<longleftrightarrow> (case p of None \<Rightarrow> True | Some et \<Rightarrow> et_loop et = None \<and> \<not> et_joinable et)"

definition pool_idle :: "EventLoopThreadPool \<Rightarrow> bool" where
  "pool_idle tp \<longleftrightarrow> (\<forall>p \<in> set (tp_threads tp). idle_thread p)"

text \<open>A started thread, and the loops once the loops \<open>ls\<close> were constructed.\<close>

abbreviation started :: "TimerOpt \<Rightarrow> int \<Rightarrow> nat \<Rightarrow> EventLoopThread option" where
  "started opt me lp \<equiv> Some \<lparr>et_timeropt = opt, et_maxevents = me, et_loop = Some lp, et_joinable = True\<rparr>"

definition new_loops :: "(nat \<Rightarrow> int) \<Rightarrow> TimerOpt \<Rightarrow> nat set \<Rightarrow> loops \<Rightarrow> loops" where
  "new_loops evfd opt ls loops = (\<lambda>lp. if lp \<in> ls then Some (EventLoop_new lp (evfd lp) (to_heartbeat_num opt)) else loops lp)"

lemma new_loops_simps [simp]:
  "new_loops evfd opt {} loops = loops" "dom (new_loops evfd opt ls loops) = dom loops \<union> ls"
  "(new_loops evfd opt ls loops)(lp \<mapsto> EventLoop_new lp (evfd lp) (to_heartbeat_num opt)) = new_loops evfd opt (insert lp ls) loops"
  by (auto simp: new_loops_def split: if_splits)

lemma destroy_idle: "\<forall>p \<in> set ps. idle_thread p \<Longrightarrow> destroy_threads ps loops = Inr loops"
  by (induction ps)
    (auto simp: EventLoopThread_destroy_def EventLoopThread_Join_def idle_thread_def split: option.splits)

lemma start_threads_eq:
  "n \<le> length ets \<Longrightarrow> length ls = length ets \<Longrightarrow> \<forall>p \<in> set ets. idle_thread p \<Longrightarrow>
   start_threads evfd (EventLoopThread_new opt me) lps n (ets, ls, loops) =
     Inr (map (\<lambda>i. started opt me (lps i)) [0..<n] @ drop n ets, map lps [0..<n] @ drop n ls, new_loops evfd opt (lps ` {..<n}) loops)"
proof (induction n)
  case (Suc n)
  then have hd: "drop n ets = ets ! n # drop (Suc n) ets" "drop n ls = ls ! n # drop (Suc n) ls"
    by (simp_all add: Cons_nth_drop_Suc)
  have "\<forall>p \<in> set [ets ! n]. idle_thread p"
    using Suc.prems nth_mem [of n ets] by simp
  from destroy_idle [OF this]
  have d: "destroy_threads [ets ! n] l = Inr l" for l .
  from Suc show ?case
    by (simp add: start_slot_def hd nth_append list_update_append d EventLoopThread_Start_def thread_begin_def EventLoopThread_new_def
        lessThan_Suc del: destroy_threads.simps)
qed simp

lemma Pool_Start_eq:
  assumes "pool_idle tp"
  shows "Pool_Start evfd lps (tp, loops) = Inr (tp\<lparr>tp_maxnum := tp_num tp, tp_running := True,
      tp_threads := map (started (tp_timeropt tp) (tp_maxevents tp)) (map lps [0..<nat (tp_num tp)]),
      tp_oper_threads := map lps [0..<nat (tp_num tp)]\<rparr>,
    new_loops evfd (tp_timeropt tp) (lps ` {..<nat (tp_num tp)}) loops)"
proof -
  let ?n = "nat (tp_num tp)"
  have "\<forall>p \<in> set (drop ?n (tp_threads tp)). idle_thread p" "\<forall>p \<in> set (vec_resize None ?n (tp_threads tp)). idle_thread p"
    using assms set_drop_subset [of ?n "tp_threads tp"] set_take_subset [of ?n "tp_threads tp"]
    by (auto simp: pool_idle_def vec_resize_def idle_thread_def)
  then show ?thesis
    by (simp add: Pool_Start_def destroy_idle start_threads_eq vec_resize_def comp_def Let_def)
qed

lemma pool_inv_new: "pool_inv (EventLoopThreadPool_new timeropt maxevents)" "pool_idle (EventLoopThreadPool_new timeropt maxevents)"
  by (simp_all add: pool_inv_def pool_idle_def EventLoopThreadPool_new_def)

lemma pool_idle_SetSize [simp]: "pool_idle (SetSize num tp) = pool_idle tp"
  by (simp add: pool_idle_def SetSize_def)

lemma pool_inv_SetSize: "pool_inv tp \<Longrightarrow> num < 2147483648 \<Longrightarrow> pool_inv (SetSize num tp)"
  by (auto simp: pool_inv_def SetSize_def)

lemma pool_inv_Start:
  "pool_inv tp \<Longrightarrow> pool_idle tp \<Longrightarrow> Pool_Start evfd lps (tp, loops) = Inr (tp', loops') \<Longrightarrow>
   pool_inv tp' \<and> tp_running tp' \<and> tp_maxnum tp' = tp_num tp \<and> tp_num tp' = tp_num tp"
  by (auto simp: pool_inv_def Pool_Start_eq)

lemma GetOneThread_ok:
  assumes "pool_inv tp" "tp_running tp"
  shows "GetOneThread tp = Inr (Some (tp_oper_threads tp ! nat (tp_pos tp mod tp_num tp)),
      tp\<lparr>tp_pos := (tp_pos tp + 1) mod tp_num tp\<rparr>) \<and> pool_inv (tp\<lparr>tp_pos := (tp_pos tp + 1) mod tp_num tp\<rparr>)"
proof -
  let ?p = "tp_pos tp mod tp_num tp"
  have b: "0 < tp_num tp" "tp_num tp < 2147483648" "0 \<le> tp_pos tp" "tp_pos tp < 2147483648"
    "tp_num tp \<le> int (length (tp_oper_threads tp))"
    using assms by (auto simp: pool_inv_def)
  have p: "0 \<le> ?p" "?p < tp_num tp" using b by simp_all
  have n: "0 \<le> (tp_pos tp + 1) mod tp_num tp" "(tp_pos tp + 1) mod tp_num tp < tp_num tp" using b by simp_all
  have "u32 (tp_pos tp) = tp_pos tp" "i32 ?p = ?p"
    using b p by (intro u32_id i32_id; linarith)+
  then have e1: "i32 (u32 (tp_pos tp) mod tp_num tp) = ?p" by simp
  have "i32 (?p + 1) = ?p + 1" "u32 (?p + 1) = ?p + 1"
    "i32 ((tp_pos tp + 1) mod tp_num tp) = (tp_pos tp + 1) mod tp_num tp"
    using b p n by (intro u32_id i32_id; linarith)+
  moreover have "(?p + 1) mod tp_num tp = (tp_pos tp + 1) mod tp_num tp" by (simp add: mod_add_left_eq)
  ultimately have e2: "i32 (u32 (i32 (?p + 1)) mod tp_num tp) = (tp_pos tp + 1) mod tp_num tp" by simp
  have "\<not> (?p < 0 \<or> int (length (tp_oper_threads tp)) \<le> ?p)" using b p by linarith
  with assms b e1 e2 n show ?thesis
    by (simp only: GetOneThread_def Let_def pool_inv_def) simp
qed

primrec get_many :: "nat \<Rightarrow> EventLoopThreadPool \<Rightarrow> (nat option list \<times> EventLoopThreadPool) res" where
  "get_many 0 tp = Inr ([], tp)"
| "get_many (Suc k) tp = rbind (GetOneThread tp) (\<lambda>(l, tp). rbind (get_many k tp) (\<lambda>(ls, tp). Inr (l # ls, tp)))"

section \<open>Properties\<close>

lemma get_many_ok:
  assumes "pool_inv tp" "tp_running tp"
  shows "\<exists>tp'. get_many k tp = Inr (map (\<lambda>i. Some (tp_oper_threads tp ! nat ((tp_pos tp + int i) mod tp_num tp))) [0..<k], tp')
    \<and> pool_inv tp'"
  using assms
proof (induction k arbitrary: tp)
  case 0
  then show ?case by simp
next
  case (Suc k)
  let ?tp = "tp\<lparr>tp_pos := (tp_pos tp + 1) mod tp_num tp\<rparr>"
  note one = GetOneThread_ok [OF Suc.prems]
  have "((tp_pos tp + 1) mod tp_num tp + int i) mod tp_num tp = (tp_pos tp + int (Suc i)) mod tp_num tp" for i
    by (simp add: mod_add_left_eq add.assoc add.commute [of 1])
  with Suc.IH [of ?tp] one Suc.prems(2) show ?case
    by (auto simp: upt_conv_Cons map_Suc_upt [symmetric] simp del: upt_Suc of_nat_Suc)
qed

text \<open>
  C29. Connections are spread in turn: \<open>Start\<close> on a pool without running threads succeeds, and
  after it any number of consecutive requests succeed, the \<open>i\<close>-th getting the loop of the
  thread at the current position plus \<open>i\<close>, modulo the size. All these loops exist.
\<close>

theorem pool_round_robin:
  assumes "pool_inv tp" "pool_idle tp"
  shows "\<exists>tp' loops' tp''. Pool_Start evfd lps (tp, loops) = Inr (tp', loops') \<and>
    get_many k tp' = Inr (map (\<lambda>i. Some (lps (nat ((tp_pos tp + int i) mod tp_num tp)))) [0..<k], tp'') \<and>
    (\<forall>i<k. lps (nat ((tp_pos tp + int i) mod tp_num tp)) \<in> dom loops')"
proof -
  obtain tp' loops' where st: "Pool_Start evfd lps (tp, loops) = Inr (tp', loops')"
    and tp': "tp_oper_threads tp' = map lps [0..<nat (tp_num tp)]" "tp_pos tp' = tp_pos tp" "tp_num tp' = tp_num tp"
      "dom loops' = dom loops \<union> lps ` {..<nat (tp_num tp)}"
    using Pool_Start_eq [OF assms(2), of evfd lps loops] by (simp del: map_map)
  have pos: "nat (x mod tp_num tp) < nat (tp_num tp)" for x
    using assms(1) by (simp add: pool_inv_def)
  have inv: "pool_inv tp'" "tp_running tp'" using pool_inv_Start [OF assms st] by simp_all
  have "\<exists>tp''. get_many k tp' = Inr (map (\<lambda>i. Some (lps (nat ((tp_pos tp + int i) mod tp_num tp)))) [0..<k], tp'')"
    using get_many_ok [OF inv, of k] pos by (auto simp: tp')
  moreover have "\<forall>i<k. lps (nat ((tp_pos tp + int i) mod tp_num tp)) \<in> dom loops'" using pos by (auto simp: tp')
  ultimately show ?thesis using st by blast
qed

definition sample_pool :: EventLoopThreadPool where
  "sample_pool = SetSize 2 (EventLoopThreadPool_new (TimerOpt_new 0 (0, 0)) 1024)"

lemma sample_pool_ok: "pool_inv sample_pool" "pool_idle sample_pool" "1 \<le> tp_num sample_pool"
  using pool_inv_SetSize [OF pool_inv_new(1), of 2] pool_inv_new(2)
  by (simp_all add: sample_pool_def pool_inv_def)

theorem pool_round_robin_witness:
  "\<exists>tp' loops' tp''. Pool_Start (\<lambda>_. 4) ((+) 10) (sample_pool, Map.empty) = Inr (tp', loops') \<and>
    get_many 3 tp' = Inr (map (\<lambda>i. Some (10 + nat ((tp_pos sample_pool + int i) mod tp_num sample_pool))) [0..<3], tp'') \<and>
    (\<forall>i<3. 10 + nat ((tp_pos sample_pool + int i) mod tp_num sample_pool) \<in> dom loops')"
  by (rule pool_round_robin [OF sample_pool_ok(1,2), of "\<lambda>_. 4" "(+) 10" Map.empty 3])

text \<open>
  The size never leaves its range: after any number of size changes on a started pool the
  number of loops in use is between one and the number of threads started, so that every
  position the pool hands out is a thread.
\<close>

theorem pool_size_range:
  assumes "pool_inv tp" "pool_idle tp" "\<forall>n \<in> set ns. 0 \<le> n \<and> n < 2147483648"
  shows "\<exists>tp' loops'. Pool_Start evfd lps (tp, loops) = Inr (tp', loops') \<and> pool_inv (fold SetSize ns tp') \<and>
    1 \<le> Pool_Size (fold SetSize ns tp') \<and> Pool_Size (fold SetSize ns tp') \<le> Pool_MaxSize (fold SetSize ns tp') \<and>
    Pool_MaxSize (fold SetSize ns tp') = Pool_Size tp \<and>
    (\<exists>lp tp''. GetOneThread (fold SetSize ns tp') = Inr (Some lp, tp''))"
proof -
  let ?P = "\<lambda>t. pool_inv t \<and> tp_running t \<and> tp_maxnum t = tp_num tp"
  have step: "?P (SetSize n t)" if "?P t" "n < 2147483648" for n t
    using that pool_inv_SetSize [of t n] by (simp add: SetSize_def)
  have "?P t \<Longrightarrow> ?P (fold SetSize ns t)" for t
    using assms(3) by (induction ns arbitrary: t) (auto simp: step)
  moreover obtain tp' loops' where st: "Pool_Start evfd lps (tp, loops) = Inr (tp', loops')"
    using Pool_Start_eq [OF assms(2)] by blast
  moreover have "?P tp'" using pool_inv_Start [OF assms(1,2) st] by simp
  ultimately have P: "?P (fold SetSize ns tp')" by blast
  from P GetOneThread_ok [of "fold SetSize ns tp'"] have "\<exists>lp tp''. GetOneThread (fold SetSize ns tp') = Inr (Some lp, tp'')"
    by blast
  with P st show ?thesis by (auto simp: pool_inv_def Pool_Size_def Pool_MaxSize_def)
qed

theorem pool_size_range_witness:
  "\<exists>tp' loops'. Pool_Start (\<lambda>_. 4) id (sample_pool, Map.empty) = Inr (tp', loops') \<and> pool_inv (fold SetSize [0, 99] tp') \<and>
    1 \<le> Pool_Size (fold SetSize [0, 99] tp') \<and> Pool_Size (fold SetSize [0, 99] tp') \<le> Pool_MaxSize (fold SetSize [0, 99] tp') \<and>
    Pool_MaxSize (fold SetSize [0, 99] tp') = Pool_Size sample_pool \<and>
    (\<exists>lp tp''. GetOneThread (fold SetSize [0, 99] tp') = Inr (Some lp, tp''))"
  by (rule pool_size_range [OF sample_pool_ok(1,2)]) simp

section \<open>Closing\<close>

lemma stop_all_eq:
  "set ls \<subseteq> dom loops \<Longrightarrow> distinct ls \<Longrightarrow>
   stop_all ls loops = Inr (\<lambda>lp. if lp \<in> set ls then map_option (StopLoop True) (loops lp) else loops lp)"
proof (induction ls arbitrary: loops)
  case (Cons lp ls)
  then obtain el where el: "loops lp = Some el" by auto
  with Cons.prems have "set ls \<subseteq> dom (loops(lp \<mapsto> StopLoop True el))" by auto
  then have "stop_all ls (loops(lp \<mapsto> StopLoop True el)) = Inr (\<lambda>x. if x \<in> set ls
      then map_option (StopLoop True) ((loops(lp \<mapsto> StopLoop True el)) x) else (loops(lp \<mapsto> StopLoop True el)) x)"
    by (rule Cons.IH) (use Cons.prems in simp)
  with Cons.prems el show ?case by (simp add: stop_loop_def fun_eq_iff)
qed simp

text \<open>Joining the threads of distinct loops ends them all, or waits for ever if one of them does not return.\<close>

lemma join_all_eq:
  "set ls \<subseteq> dom loops \<Longrightarrow> distinct ls \<Longrightarrow> join_all (map (started opt me) ls) loops =
   (if \<forall>lp \<in> set ls. loop_returns (the (loops lp))
    then Inr (map (\<lambda>_. Some (EventLoopThread_new opt me)) ls, loops |` (- set ls)) else Inl Blocked)"
proof (induction ls arbitrary: loops)
  case (Cons lp ls)
  then obtain el where el: "loops lp = Some el" by auto
  have "set ls \<subseteq> dom (loops(lp := None))" using Cons.prems by auto
  then have IH: "join_all (map (started opt me) ls) (loops(lp := None)) =
     (if \<forall>x \<in> set ls. loop_returns (the ((loops(lp := None)) x))
      then Inr (map (\<lambda>_. Some (EventLoopThread_new opt me)) ls, (loops(lp := None)) |` (- set ls)) else Inl Blocked)"
    by (rule Cons.IH) (use Cons.prems in simp)
  have "(loops(lp := None)) |` (- set ls) = loops |` (- set (lp # ls))" by (auto simp: restrict_map_def fun_eq_iff)
  moreover have "(\<forall>x \<in> set ls. loop_returns (the ((loops(lp := None)) x))) \<longleftrightarrow> (\<forall>x \<in> set ls. loop_returns (the (loops x)))"
    using Cons.prems by auto
  ultimately show ?case
    using IH Cons.prems el by (simp add: EventLoopThread_Join_def thread_end_def EventLoopThread_new_def)
qed (simp add: restrict_map_def)

lemma Pool_Close_started:
  assumes "tp_threads tp = map (started opt me) ls" "tp_oper_threads tp = ls" "set ls \<subseteq> dom loops" "distinct ls"
  shows "Pool_Close (tp, loops) = (if \<forall>lp \<in> set ls. el_looping (the (loops lp))
    then Inr (tp\<lparr>tp_running := False, tp_threads := map (\<lambda>_. Some (EventLoopThread_new opt me)) ls\<rparr>, loops |` (- set ls))
    else Inl Blocked)"
proof -
  let ?loops = "\<lambda>lp. if lp \<in> set ls then map_option (StopLoop True) (loops lp) else loops lp"
  have "set ls \<subseteq> dom ?loops" using assms(3) by auto
  note j = join_all_eq [OF this assms(4), of opt me]
  have "?loops |` (- set ls) = loops |` (- set ls)" by (auto simp: restrict_map_def fun_eq_iff)
  moreover have "loop_returns (the (?loops lp)) \<longleftrightarrow> el_looping (the (loops lp))" if "lp \<in> set ls" for lp
  proof -
    from that assms(3) obtain el where "loops lp = Some el" by auto
    with that show ?thesis by (simp add: loop_returns_def StopLoop_def WakeUp_def set_quit_def)
  qed
  ultimately show ?thesis using assms j stop_all_eq [OF assms(3,4)] by (simp add: Pool_Close_def)
qed

lemma enter_loops_simps [simp]: "dom (enter_loops E loops) = dom loops"
  "loops lp = Some el \<Longrightarrow> enter_loops E loops lp = Some (if lp \<in> E then Loop_enter el else el)"
  by (auto simp: enter_loops_def split: if_splits)

lemma entered_new: "lp \<in> ls \<Longrightarrow> el_looping (the (enter_loops E (new_loops evfd opt ls loops) lp)) \<longleftrightarrow> lp \<in> E"
  by (simp add: enter_loops_def new_loops_def EventLoop_new_def Loop_enter_def)

lemma Pool_Start_Close:
  assumes "pool_idle tp" "inj_on lps {..<nat (tp_num tp)}"
  defines "ls \<equiv> lps ` {..<nat (tp_num tp)}"
  shows "\<exists>tp' loops' tp''. Pool_Start evfd lps (tp, loops) = Inr (tp', loops') \<and>
    Pool_Close (tp', enter_loops E loops') =
      (if ls \<subseteq> E then Inr (tp'', enter_loops E loops |` (- ls)) else Inl Blocked) \<and> pool_idle tp'' \<and>
    tp_num tp'' = tp_num tp \<and> tp_oper_threads tp'' = map lps [0..<nat (tp_num tp)] \<and>
    length (tp_threads tp'') = nat (tp_num tp)"
proof -
  let ?ls = "map lps [0..<nat (tp_num tp)]" and ?opt = "tp_timeropt tp" and ?me = "tp_maxevents tp"
  have ls: "set ?ls = ls" "distinct ?ls"
    using assms(2) by (auto simp: ls_def lessThan_atLeast0 distinct_map)
  obtain tp' where st: "Pool_Start evfd lps (tp, loops) = Inr (tp', new_loops evfd ?opt ls loops)"
    "tp_threads tp' = map (started ?opt ?me) ?ls" "tp_oper_threads tp' = ?ls" "tp_num tp' = tp_num tp"
    using Pool_Start_eq [OF assms(1), of evfd lps loops] by (simp add: ls_def del: map_map)
  let ?tp = "tp'\<lparr>tp_running := False, tp_threads := map (\<lambda>_. Some (EventLoopThread_new ?opt ?me)) ?ls\<rparr>"
  have "set ?ls \<subseteq> dom (enter_loops E (new_loops evfd ?opt ls loops))" using ls by auto
  from Pool_Close_started [OF st(2,3) this ls(2)] have "Pool_Close (tp', enter_loops E (new_loops evfd ?opt ls loops)) =
      (if ls \<subseteq> E then Inr (?tp, enter_loops E (new_loops evfd ?opt ls loops) |` (- ls)) else Inl Blocked)"
    unfolding ls(1) by (simp add: entered_new subset_eq)
  moreover have "enter_loops E (new_loops evfd ?opt ls loops) |` (- ls) = enter_loops E loops |` (- ls)"
    by (auto simp: restrict_map_def enter_loops_def new_loops_def fun_eq_iff)
  ultimately show ?thesis
    using st by (intro exI [of _ tp'] exI [of _ "new_loops evfd ?opt ls loops"] exI [of _ ?tp])
      (auto simp: pool_idle_def idle_thread_def EventLoopThread_new_def)
qed

text \<open>
  Closing a pool twice is undefined behaviour: the first \<open>Close\<close> ends the threads and with
  them their loops, and the second calls \<open>StopLoop\<close> through the pointers that were kept.
\<close>

theorem pool_close_twice:
  assumes "pool_inv tp" "pool_idle tp" "inj_on lps {..<nat (tp_num tp)}" "lps ` {..<nat (tp_num tp)} \<subseteq> E"
  shows "\<exists>tp' loops' st. Pool_Start evfd lps (tp, loops) = Inr (tp', loops') \<and> Pool_Close (tp', enter_loops E loops') = Inr st \<and>
    Pool_Close st = Inl UB"
proof -
  obtain n where n: "nat (tp_num tp) = Suc n"
    using assms(1) by (cases "nat (tp_num tp)") (auto simp: pool_inv_def)
  from Pool_Start_Close [OF assms(2,3), of evfd loops E] assms(4) n obtain tp' loops' tp'' where
    st: "Pool_Start evfd lps (tp, loops) = Inr (tp', loops')"
      "Pool_Close (tp', enter_loops E loops') = Inr (tp'', enter_loops E loops |` (- lps ` {..<Suc n}))"
    and tp'': "tp_oper_threads tp'' = map lps [0..<Suc n]" "length (tp_threads tp'') = Suc n"
    by (auto simp del: upt_Suc)
  have "map lps [0..<Suc n] = lps 0 # map lps [1..<Suc n]" by (simp add: upt_conv_Cons del: upt_Suc)
  then have "Pool_Close (tp'', enter_loops E loops |` (- lps ` {..<Suc n})) = Inl UB"
    by (simp add: Pool_Close_def tp'' stop_loop_def restrict_map_def del: upt_Suc)
  with st show ?thesis by blast
qed

theorem pool_close_twice_witness:
  "\<exists>tp' loops' st. Pool_Start (\<lambda>_. 4) id (sample_pool, Map.empty) = Inr (tp', loops') \<and> Pool_Close (tp', enter_loops UNIV loops') = Inr st \<and>
    Pool_Close st = Inl UB"
  by (rule pool_close_twice [OF sample_pool_ok(1,2)]) simp_all

end
