(* ===== verification/Tcp_Conn.thy ===== *)
theory Tcp_Conn
  imports Net_Buffer Epoll_Channel Event_Loop Time_Wheel
begin

text \<open>
  \<open>adachi::network::TcpConnection\<close> (\<^verbatim>\<open>include/tcpconnection.h\<close>, \<^verbatim>\<open>src/tcpconnection.cpp\<close>): one
  connection with its buffers, its channel in the poller of the loop that owns it, its
  heartbeat and its orderly shutdown. The constructor makes \<open>channel_\<close> and \<open>socket_\<close> and nothing
  resets them, so they are plain members here.
\<close>

section \<open>State\<close>

datatype connectionstate = kConnecting | kDisConnecting | kDisConnected

datatype tcp_callback = CbRead | CbWriteFd | CbClose

text \<open>The closures that other threads submit; each holds a weak pointer to the connection.\<close>

datatype tcp_mission = MActivateInThread | MWriteInThread bytes | MCloseInThread

record TcpConnection =
  tc_channel :: "tcp_callback Channel"
  tc_status :: connectionstate
  tc_close_requested :: bool
  tc_socket :: int
  tc_read_buffer :: Buffer
  tc_write_buffer :: Buffer
  tc_has_close_callback :: bool
  tc_heartbeat :: "nat option"
  tc_shared :: bool

text \<open>
  The connection in its surroundings. \<open>cw_id\<close> stands for the addresses of the connection and
  of its channel; \<open>cw_writes\<close> are the kernel's answers to the coming writes on the socket, a
  full socket buffer once they are used up; \<open>cw_wire\<close> are the bytes the kernel has taken from
  this connection, \<open>cw_closed_fds\<close> the descriptors closed, and \<open>cw_notified\<close> counts the calls
  of \<open>close_callback_\<close>. \<open>tc_shared\<close> tells whether \<open>weak_from_this().lock()\<close> succeeds.
\<close>

record ConnWorld =
  cw_conn :: TcpConnection
  cw_id :: nat
  cw_epoll :: Epoll
  cw_loop :: "tcp_mission EventLoop"
  cw_wheel :: "Wheel option"
  cw_writes :: "wr_result list"
  cw_wire :: bytes
  cw_closed_fds :: "int list"
  cw_notified :: nat

abbreviation w_channel :: "ConnWorld \<Rightarrow> tcp_callback Channel" where
  "w_channel w \<equiv> tc_channel (cw_conn w)"

abbreviation w_status :: "ConnWorld \<Rightarrow> connectionstate" where
  "w_status w \<equiv> tc_status (cw_conn w)"

abbreviation w_out :: "ConnWorld \<Rightarrow> Buffer" where
  "w_out w \<equiv> tc_write_buffer (cw_conn w)"

abbreviation w_in :: "ConnWorld \<Rightarrow> Buffer" where
  "w_in w \<equiv> tc_read_buffer (cw_conn w)"

definition upd_conn :: "(TcpConnection \<Rightarrow> TcpConnection) \<Rightarrow> ConnWorld \<Rightarrow> ConnWorld" where
  "upd_conn f w = w\<lparr>cw_conn := f (cw_conn w)\<rparr>"

section \<open>The channel and the socket, seen from the connection\<close>

definition set_active :: "events \<Rightarrow> ConnWorld \<Rightarrow> ConnWorld" where
  "set_active st w = (case SetActive True (cw_id w) st (cw_epoll w, w_channel w) of
     Inl (ep, ch) \<Rightarrow> upd_conn (tc_channel_update (\<lambda>_. ch)) (w\<lparr>cw_epoll := ep\<rparr>)
   | Inr _ \<Rightarrow> w)"

definition remove_from_loop :: "ConnWorld \<Rightarrow> ConnWorld" where
  "remove_from_loop w = (case RemoveFromLoop (cw_epoll w, w_channel w) of
     (ep, ch) \<Rightarrow> upd_conn (tc_channel_update (\<lambda>_. ch)) (w\<lparr>cw_epoll := ep\<rparr>))"

text \<open>\<open>Socket::Close\<close>; the kernel drops the registration of a descriptor that is closed.\<close>

definition socket_close :: "ConnWorld \<Rightarrow> ConnWorld" where
  "socket_close w = (let fd = tc_socket (cw_conn w); w' = upd_conn (tc_socket_update (\<lambda>_. -1)) w in
     if fd \<ge> 0 then w'\<lparr>cw_closed_fds := cw_closed_fds w @ [fd],
       cw_epoll := (cw_epoll w)\<lparr>ep_interest := (ep_interest (cw_epoll w))(fd := None)\<rparr>\<rparr>
     else w')"

definition run_close_callback :: "ConnWorld \<Rightarrow> ConnWorld" where
  "run_close_callback w = (if tc_shared (cw_conn w) \<and> tc_has_close_callback (cw_conn w)
     then w\<lparr>cw_notified := cw_notified w + 1\<rparr> else w)"

text \<open>
  The kernel's next answer to a write on the socket, which is \<open>EBADF\<close> once it is closed. A
  single write takes at most \<open>0x7ffff000\<close> bytes.
\<close>

definition EBADF :: int where "EBADF = 9"

definition next_write :: "ConnWorld \<Rightarrow> wr_result \<times> ConnWorld" where
  "next_write w = (if tc_socket (cw_conn w) < 0 then (WrError EBADF, w)
     else case cw_writes w of
       [] \<Rightarrow> (WrError EAGAIN, w)
     | r # rs \<Rightarrow> (case r of WrBytes k \<Rightarrow> WrBytes (min k 2147479552) | WrError e \<Rightarrow> WrError e, w\<lparr>cw_writes := rs\<rparr>))"

section \<open>Construction\<close>

definition TcpConnection_new ::
  "Epoll \<Rightarrow> tcp_mission EventLoop \<Rightarrow> Wheel option \<Rightarrow> bool \<Rightarrow> nat \<Rightarrow> int \<Rightarrow> int \<Rightarrow> int \<Rightarrow> ConnWorld res" where
  "TcpConnection_new ep loop wheel add_ok c fd read_size write_size =
     (case Channel_new (Some ep) add_ok c fd of
        (None, _) \<Rightarrow> Inl UB
      | (Some ep, ch) \<Rightarrow>
        rbind (Buffer_new (i32 read_size)) (\<lambda>rb. rbind (Buffer_new (i32 write_size)) (\<lambda>wb.
        Inr \<lparr>cw_conn = \<lparr>tc_channel = ch\<lparr>ch_read_callback := Some CbRead, ch_write_callback := Some CbWriteFd,
                           ch_error_callback := Some CbClose, ch_close_callback := Some CbClose\<rparr>,
               tc_status = kConnecting, tc_close_requested = False, tc_socket = fd,
               tc_read_buffer = rb, tc_write_buffer = wb, tc_has_close_callback = False,
               tc_heartbeat = None, tc_shared = True\<rparr>,
             cw_id = c, cw_epoll = ep, cw_loop = loop, cw_wheel = wheel, cw_writes = [], cw_wire = [],
             cw_closed_fds = [], cw_notified = 0\<rparr>)))"

definition Tcp_SetCloseCallback :: "ConnWorld \<Rightarrow> ConnWorld" where
  "Tcp_SetCloseCallback w = upd_conn (tc_has_close_callback_update (\<lambda>_. True)) w"

definition IsWriteBufferEmpty :: "ConnWorld \<Rightarrow> bool" where
  "IsWriteBufferEmpty w = Buffer_Empty (w_out w)"

definition Tcp_Fd :: "ConnWorld \<Rightarrow> int" where
  "Tcp_Fd w = tc_socket (cw_conn w)"

definition SaveLifeMechanism :: "nat \<Rightarrow> ConnWorld \<Rightarrow> ConnWorld res" where
  "SaveLifeMechanism ob w =
     (if \<not> tc_shared (cw_conn w) then Inr w
      else let w = upd_conn (tc_channel_update (Tie (cw_id w))) w in
      if ch_owner (w_channel w) = None then Inl UB
      else case cw_wheel w of
        None \<Rightarrow> Inr w
      | Some wh \<Rightarrow> rbind (new_heartbeat True ob (cw_id w) wh) (\<lambda>wh.
          Inr (upd_conn (tc_heartbeat_update (\<lambda>_. Some ob)) (w\<lparr>cw_wheel := Some wh\<rparr>))))"

section \<open>Operations on the loop's thread\<close>

definition ActivateInThread :: "ConnWorld \<Rightarrow> ConnWorld" where
  "ActivateInThread w = (if w_status w \<noteq> kConnecting then w else set_active (kRead OR kClose) w)"

definition CloseInThread :: "ConnWorld \<Rightarrow> ConnWorld" where
  "CloseInThread w =
     (if w_status w = kDisConnected then w
      else if Buffer_Empty (w_out w) then
        run_close_callback (socket_close (remove_from_loop (upd_conn (tc_status_update (\<lambda>_. kDisConnected)) w)))
      else
        let w = upd_conn (tc_status_update (\<lambda>_. kDisConnecting)) w
        in set_active (ch_events (w_channel w) OR kWrite) w)"

definition put_out :: "Buffer \<Rightarrow> ConnWorld \<Rightarrow> ConnWorld" where
  "put_out b w = upd_conn (tc_write_buffer_update (\<lambda>_. b)) w"

definition WriteInThread :: "bytes \<Rightarrow> ConnWorld \<Rightarrow> ConnWorld res" where
  "WriteInThread message w =
     (if w_status w \<noteq> kConnecting then Inr w
      else rbind
        (if Buffer_Empty (w_out w) then
           (case next_write w of
              (WrBytes k, w) \<Rightarrow>
                let n = min k (length message);
                    w = w\<lparr>cw_wire := cw_wire w @ take n message\<rparr>
                in if u32 (i32 (int n)) \<noteq> int (length message)
                   then rbind (WriteBuffer_ptr (w_out w) (drop n message) (u32 (int (length message) - int n))) (\<lambda>b.
                     Inr (put_out b w))
                   else Inr w
            | (WrError e, w) \<Rightarrow>
                if \<not> transient e then Inr (CloseInThread w)
                else rbind (WriteBuffer (w_out w) message) (\<lambda>b. Inr (put_out b w)))
         else rbind (WriteBuffer (w_out w) message) (\<lambda>b. Inr (put_out b w)))
        (\<lambda>w. Inr (if \<not> Buffer_Empty (w_out w) then set_active (ch_events (w_channel w) OR kWrite) w else w)))"

section \<open>Operations from any thread\<close>

text \<open>\<open>caller\<close> is the thread that calls; the loop's own thread works at once, any other submits.\<close>

definition submit_mission :: "nat \<Rightarrow> tcp_mission \<Rightarrow> ConnWorld \<Rightarrow> ConnWorld" where
  "submit_mission caller m w = (case Submit caller True m (cw_loop w) of
     Inl _ \<Rightarrow> w | Inr el \<Rightarrow> w\<lparr>cw_loop := el\<rparr>)"

definition Activate :: "nat \<Rightarrow> ConnWorld \<Rightarrow> ConnWorld" where
  "Activate caller w =
     (if ch_owner (w_channel w) = None then w
      else if IsInThread caller (cw_loop w) then ActivateInThread w
      else submit_mission caller MActivateInThread w)"

definition Tcp_Write :: "nat \<Rightarrow> ConnWorld \<Rightarrow> bytes \<Rightarrow> ConnWorld res" where
  "Tcp_Write caller w message =
     (if ch_owner (w_channel w) = None then Inr w
      else if IsInThread caller (cw_loop w) then WriteInThread message w
      else Inr (submit_mission caller (MWriteInThread message) w))"

definition Tcp_Close :: "nat \<Rightarrow> ConnWorld \<Rightarrow> ConnWorld" where
  "Tcp_Close caller w =
     (if tc_close_requested (cw_conn w) then w
      else let w = upd_conn (tc_close_requested_update (\<lambda>_. True)) w in
      if ch_owner (w_channel w) = None then w
      else if IsInThread caller (cw_loop w) then CloseInThread w
      else submit_mission caller MCloseInThread w)"

definition Tcp_WriteFd :: "nat \<Rightarrow> ConnWorld \<Rightarrow> ConnWorld res" where
  "Tcp_WriteFd caller w =
     (if w_status w = kDisConnected then Inr w
      else case next_write w of (r, w) \<Rightarrow>
        rbind (WriteFd (w_out w) r) (\<lambda>(n, saveerrno, sent, b).
        let w = put_out b (w\<lparr>cw_wire := cw_wire w @ sent\<rparr>);
            w = (if n < 0 \<and> (case saveerrno of None \<Rightarrow> False | Some e \<Rightarrow> \<not> transient e) then Tcp_Close caller w else w)
        in Inr (if Buffer_Empty (w_out w) then
             let w = (if has_event (ch_events (w_channel w)) kWrite
                      then set_active (ch_events (w_channel w) XOR kWrite) w else w)
             in if w_status w = kDisConnecting then
                  socket_close (remove_from_loop (run_close_callback (upd_conn (tc_status_update (\<lambda>_. kDisConnected)) w)))
                else w
           else w)))"

text \<open>The destructor, and after it that of the member \<open>socket_\<close>.\<close>

definition TcpConnection_destroy :: "ConnWorld \<Rightarrow> ConnWorld" where
  "TcpConnection_destroy w = socket_close (remove_from_loop w)"

text \<open>What the loop does with a mission: nothing if the connection is gone.\<close>

primrec run_tcp_mission :: "tcp_mission \<Rightarrow> ConnWorld \<Rightarrow> ConnWorld res" where
  "run_tcp_mission MActivateInThread w = Inr (if tc_shared (cw_conn w) then ActivateInThread w else w)"
| "run_tcp_mission (MWriteInThread msg) w = (if tc_shared (cw_conn w) then WriteInThread msg w else Inr w)"
| "run_tcp_mission MCloseInThread w = Inr (if tc_shared (cw_conn w) then CloseInThread w else w)"

primrec run_tcp_missions :: "tcp_mission list \<Rightarrow> ConnWorld \<Rightarrow> ConnWorld res" where
  "run_tcp_missions [] w = Inr w"
| "run_tcp_missions (m # ms) w = rbind (run_tcp_mission m w) (run_tcp_missions ms)"

definition do_tcp_missions :: "ConnWorld \<Rightarrow> ConnWorld res" where
  "do_tcp_missions w = (case DoCrossThreadMission (cw_loop w) of (ms, el) \<Rightarrow> run_tcp_missions ms (w\<lparr>cw_loop := el\<rparr>))"

section \<open>Reading\<close>

text \<open>
  \<open>onmsg\<close> is the installed \<open>onmessage_\<close>, on the application's state \<open>'x\<close> and the connection,
  whose input buffer it works on; it may fail to return.
\<close>

type_synonym 'x on_msg = "'x \<times> ConnWorld \<Rightarrow> ('x \<times> ConnWorld) res option"

text \<open>
  The heartbeat on a read. Heartbeat objects live in the wheel of the connection's loop only, so that \<open>lock\<close> fails without
  a wheel; on an object that exists the owner of the channel is dereferenced.
\<close>

definition beat :: "ConnWorld \<Rightarrow> ConnWorld res" where
  "beat w = (case tc_heartbeat (cw_conn w) of None \<Rightarrow> Inr w
     | Some ob \<Rightarrow> (case cw_wheel w of
         None \<Rightarrow> Inr w
       | Some wh \<Rightarrow> if wh_objs wh ob \<noteq> None \<and> ch_owner (w_channel w) = None then Inl UB
           else rbind (refresh ob wh) (\<lambda>wh. Inr (w\<lparr>cw_wheel := Some wh\<rparr>))))"

definition Tcp_Read :: "nat \<Rightarrow> 'x on_msg \<Rightarrow> rd_result \<Rightarrow> 'x on_msg" where
  "Tcp_Read caller onmsg rv st = (case st of (x, w) \<Rightarrow>
     if w_status w \<noteq> kConnecting then Some (Inr (x, w))
     else (case ReadFd (w_in w) rv of
       Inl e \<Rightarrow> Some (Inl e)
     | Inr (n, saveerrno, b) \<Rightarrow>
         let w = upd_conn (tc_read_buffer_update (\<lambda>_. b)) w in
         if n > 0 then
           (case beat w of
              Inl e \<Rightarrow> Some (Inl e)
            | Inr w \<Rightarrow> if tc_shared (cw_conn w) then onmsg (x, w) else Some (Inr (x, w)))
         else if n = 0 then Some (Inr (x, Tcp_Close caller w))
         else if (case saveerrno of None \<Rightarrow> False | Some e \<Rightarrow> transient e) then Some (Inr (x, w))
         else Some (Inr (x, Tcp_Close caller w))))"

text \<open>The default \<open>onmessage_\<close>: frames of a big-endian length and a message, each answered.\<close>

definition default_iter ::
  "bool \<Rightarrow> ('c \<Rightarrow> bytes \<Rightarrow> 'c res) \<Rightarrow> ('c \<Rightarrow> 'c res) \<Rightarrow> 'c \<times> Buffer \<Rightarrow> (bool \<times> 'c \<times> Buffer) res" where
  "default_iter big Write Close st = (case st of (conn, buffer) \<Rightarrow>
     rbind (PeekUnsignedInt big buffer) (\<lambda>v.
     let len = hton big v in
     if unat len > 100000 then rbind (Close conn) (\<lambda>conn. Inr (True, conn, buffer))
     else if Buffer_Size buffer \<ge> usz (unat len + 4) then
       rbind (ReadBuffer buffer 4) (\<lambda>(header, buffer).
       rbind (ReadBuffer buffer (unat len)) (\<lambda>(message, buffer).
       let message = message @ [32, 79, 75, 33];
           v = hton big (of_nat (length message) :: 32 word);
           msgback = store_int big v
       in rbind (Write conn (msgback @ message)) (\<lambda>conn. Inr (False, conn, buffer))))
     else Inr (True, conn, buffer)))"

partial_function (option) default_on_message ::
  "bool \<Rightarrow> ('c \<Rightarrow> bytes \<Rightarrow> 'c res) \<Rightarrow> ('c \<Rightarrow> 'c res) \<Rightarrow> 'c \<times> Buffer \<Rightarrow> ('c \<times> Buffer) res option" where
  "default_on_message big Write Close st =
     (if Buffer_Size (snd st) < 4 then Some (Inr st)
      else case default_iter big Write Close st of
        Inl e \<Rightarrow> Some (Inl e)
      | Inr (returned, st) \<Rightarrow> if returned then Some (Inr st) else default_on_message big Write Close st)"

text \<open>\<open>Channel::Handle\<close> on the connection's channel: its callbacks in order.\<close>

definition run_tcp_callback :: "nat \<Rightarrow> 'x on_msg \<Rightarrow> rd_result \<Rightarrow> tcp_callback \<Rightarrow> 'x on_msg" where
  "run_tcp_callback caller onmsg rv cb st = (case cb of
     CbRead \<Rightarrow> Tcp_Read caller onmsg rv st
   | CbWriteFd \<Rightarrow> Some (rbind (Tcp_WriteFd caller (snd st)) (\<lambda>w. Inr (fst st, w)))
   | CbClose \<Rightarrow> Some (Inr (fst st, Tcp_Close caller (snd st))))"

section \<open>Invariant\<close>

abbreviation w_unsent :: "ConnWorld \<Rightarrow> bytes" where
  "w_unsent w \<equiv> buf_content (w_out w)"

abbreviation w_interest :: "ConnWorld \<Rightarrow> int \<rightharpoonup> nat \<times> events" where
  "w_interest w \<equiv> ep_interest (cw_epoll w)"

text \<open>
  While a connection is not closed its channel is registered with the events it asks for, on
  a socket that is open, and it asks for writability whenever bytes are waiting. In the state
  \<open>kDisConnecting\<close> there are bytes to send; once it is closed nothing is left to send, the
  socket is closed, the channel has left the poller, and the owner has been told once.
\<close>

definition conn_ok :: "ConnWorld \<Rightarrow> bool" where
  "conn_ok w \<longleftrightarrow> buf_inv (w_in w) \<and> buf_inv (w_out w) \<and>
     (w_status w \<noteq> kDisConnected \<longrightarrow>
        ch_owner (w_channel w) = Some (ep_owner (cw_epoll w)) \<and> 0 \<le> ch_fd (w_channel w) \<and>
        tc_socket (cw_conn w) = ch_fd (w_channel w) \<and>
        w_interest w (ch_fd (w_channel w)) = Some (cw_id w, ch_events (w_channel w)) \<and>
        (w_unsent w \<noteq> [] \<longrightarrow> has_event (ch_events (w_channel w)) kWrite) \<and> cw_notified w = 0) \<and>
     (w_status w = kDisConnecting \<longrightarrow> w_unsent w \<noteq> []) \<and>
     (w_status w = kDisConnected \<longrightarrow> w_unsent w = [] \<and> tc_socket (cw_conn w) = -1 \<and>
        ch_owner (w_channel w) = None \<and> w_interest w (ch_fd (w_channel w)) = None \<and>
        cw_notified w = (if tc_shared (cw_conn w) \<and> tc_has_close_callback (cw_conn w) then 1 else 0))"

text \<open>What an operation on the output side leaves alone.\<close>

definition same_rest :: "ConnWorld \<Rightarrow> ConnWorld \<Rightarrow> bool" where
  "same_rest w w' \<longleftrightarrow> w_in w' = w_in w \<and> cw_id w' = cw_id w \<and> cw_wheel w' = cw_wheel w \<and>
     el_tid (cw_loop w') = el_tid (cw_loop w) \<and> tc_shared (cw_conn w') = tc_shared (cw_conn w) \<and>
     tc_has_close_callback (cw_conn w') = tc_has_close_callback (cw_conn w)"

lemma same_rest_refl [simp]: "same_rest w w"
  by (simp add: same_rest_def)

lemma same_rest_trans: "same_rest w w' \<Longrightarrow> same_rest w' w'' \<Longrightarrow> same_rest w w''"
  by (simp add: same_rest_def)

lemma has_event_or [simp]: "has_event (ev OR kWrite) kWrite"
proof -
  have "(ev OR kWrite) AND kWrite = kWrite"
    by (rule bit_word_eqI) (auto simp: bit_simps)
  then show ?thesis by (simp add: has_event_def kWrite_def)
qed

lemma upd_conn_simps [simp]:
  "cw_conn (upd_conn f w) = f (cw_conn w)" "cw_id (upd_conn f w) = cw_id w" "cw_epoll (upd_conn f w) = cw_epoll w"
  "cw_loop (upd_conn f w) = cw_loop w" "cw_wheel (upd_conn f w) = cw_wheel w" "cw_writes (upd_conn f w) = cw_writes w"
  "cw_wire (upd_conn f w) = cw_wire w" "cw_closed_fds (upd_conn f w) = cw_closed_fds w"
  "cw_notified (upd_conn f w) = cw_notified w"
  by (simp_all add: upd_conn_def)

text \<open>The two channel operations on a registered and on a removed channel.\<close>

lemma set_active_registered:
  assumes "ch_owner (w_channel w) = Some (ep_owner (cw_epoll w))" "w_interest w (ch_fd (w_channel w)) \<noteq> None"
  shows "set_active ev w = w\<lparr>cw_conn := (cw_conn w)\<lparr>tc_channel := (w_channel w)\<lparr>ch_events := ev\<rparr>\<rparr>,
    cw_epoll := (cw_epoll w)\<lparr>ep_interest := (w_interest w)(ch_fd (w_channel w) \<mapsto> (cw_id w, ev))\<rparr>\<rparr>"
  using assms
  by (auto simp: set_active_def SetActive_def elsewhere_def UpdateChannel_def epoll_ctl_mod_def upd_conn_def Let_def)

lemma set_active_orphan:
  "ch_owner (w_channel w) = None \<Longrightarrow>
   set_active ev w = w\<lparr>cw_conn := (cw_conn w)\<lparr>tc_channel := (w_channel w)\<lparr>ch_events := ev\<rparr>\<rparr>\<rparr>"
  by (simp add: set_active_def SetActive_def elsewhere_def upd_conn_def Let_def)

lemma remove_registered:
  assumes "ch_owner (w_channel w) = Some (ep_owner (cw_epoll w))" "w_interest w (ch_fd (w_channel w)) \<noteq> None"
  shows "remove_from_loop w = w\<lparr>cw_conn := (cw_conn w)\<lparr>tc_channel := (w_channel w)\<lparr>ch_owner := None, ch_tied := False\<rparr>\<rparr>,
    cw_epoll := (cw_epoll w)\<lparr>ep_interest := (w_interest w)(ch_fd (w_channel w) := None)\<rparr>\<rparr>"
  using assms
  by (auto simp: remove_from_loop_def RemoveFromLoop_def DeleteChannel_def epoll_ctl_del_def upd_conn_def Let_def)

lemma CloseInThread_ok:
  assumes "conn_ok w"
  shows "conn_ok (CloseInThread w) \<and> cw_wire (CloseInThread w) = cw_wire w \<and> w_unsent (CloseInThread w) = w_unsent w \<and>
    same_rest w (CloseInThread w) \<and> cw_writes (CloseInThread w) = cw_writes w \<and> w_status (CloseInThread w) \<noteq> kConnecting \<and>
    (w_unsent w = [] \<longrightarrow> w_status (CloseInThread w) = kDisConnected) \<and> cw_loop (CloseInThread w) = cw_loop w"
proof (cases "w_status w = kDisConnected")
  case True
  with assms show ?thesis by (simp add: CloseInThread_def)
next
  case False
  then have reg: "ch_owner (w_channel w) = Some (ep_owner (cw_epoll w))" "w_interest w (ch_fd (w_channel w)) \<noteq> None"
    and inv: "buf_inv (w_out w)"
    using assms by (auto simp: conn_ok_def)
  show ?thesis
  proof (cases "w_unsent w = []")
    case True
    then have "Buffer_Empty (w_out w)" using inv by (simp add: Buffer_Empty_content)
    with True False reg assms show ?thesis
      by (auto simp: CloseInThread_def remove_registered socket_close_def run_close_callback_def conn_ok_def same_rest_def Let_def)
  next
    case False
    then have "\<not> Buffer_Empty (w_out w)" using inv by (simp add: Buffer_Empty_content)
    with False \<open>w_status w \<noteq> kDisConnected\<close> reg assms show ?thesis
      by (auto simp: CloseInThread_def set_active_registered conn_ok_def same_rest_def Let_def)
  qed
qed

text \<open>A new output buffer, with writability requested if bytes are waiting.\<close>

lemma put_out_simps [simp]:
  "w_out (put_out b w) = b" "w_channel (put_out b w) = w_channel w" "w_status (put_out b w) = w_status w"
  "cw_wire (put_out b w) = cw_wire w" "cw_loop (put_out b w) = cw_loop w" "cw_epoll (put_out b w) = cw_epoll w"
  "same_rest w (put_out b w)"
  by (simp_all add: put_out_def same_rest_def)

definition watch_output :: "ConnWorld \<Rightarrow> ConnWorld" where
  "watch_output w = (if \<not> Buffer_Empty (w_out w) then set_active (ch_events (w_channel w) OR kWrite) w else w)"

lemma watch_output_ok:
  fixes wire :: bytes and ws :: "wr_result list"
  assumes "conn_ok w" "w_status w = kConnecting" "buf_inv b"
  defines "w1 \<equiv> put_out b (w\<lparr>cw_writes := ws, cw_wire := wire\<rparr>)"
  shows "conn_ok (watch_output w1) \<and> w_status (watch_output w1) = kConnecting \<and> cw_wire (watch_output w1) = wire \<and>
    w_unsent (watch_output w1) = buf_content b \<and> same_rest w (watch_output w1) \<and> cw_loop (watch_output w1) = cw_loop w"
proof -
  have reg: "ch_owner (w_channel w1) = Some (ep_owner (cw_epoll w1))" "w_interest w1 (ch_fd (w_channel w1)) \<noteq> None"
    using assms by (auto simp: conn_ok_def put_out_def)
  show ?thesis
    using assms(1-3) reg
    by (cases "Buffer_Empty b")
      (auto simp: watch_output_def set_active_registered w1_def put_out_def conn_ok_def same_rest_def Buffer_Empty_content)
qed

text \<open>When \<open>WriteInThread\<close> drops its message: the connection is closing or the socket fails.\<close>

definition refuses :: "ConnWorld \<Rightarrow> bool" where
  "refuses w \<longleftrightarrow> w_status w \<noteq> kConnecting \<or>
     w_unsent w = [] \<and> (case fst (next_write w) of WrError e \<Rightarrow> \<not> transient e | WrBytes _ \<Rightarrow> False)"

lemma next_write_open:
  assumes "0 \<le> tc_socket (cw_conn w)"
  shows "\<exists>r ws. next_write w = (r, w\<lparr>cw_writes := ws\<rparr>) \<and> set ws \<subseteq> set (cw_writes w) \<and>
    (\<forall>k. r = WrBytes k \<longrightarrow> k < 2147483648 \<and> (\<exists>k. WrBytes k \<in> set (cw_writes w)))"
proof (cases "cw_writes w")
  case Nil
  then have "w\<lparr>cw_writes := []\<rparr> = w" by (cases w) simp
  with assms Nil show ?thesis
    by (intro exI [of _ "WrError EAGAIN"] exI [of _ "[]"]) (simp add: next_write_def)
next
  case (Cons r ws)
  with assms show ?thesis by (cases r) (auto simp: next_write_def min_def intro!: exI [of _ ws])
qed

lemma WriteInThread_eq:
  "WriteInThread message w = (if w_status w \<noteq> kConnecting then Inr w
     else rbind (if Buffer_Empty (w_out w) then
         (case next_write w of
            (WrBytes k, w) \<Rightarrow>
              let n = min k (length message); w = w\<lparr>cw_wire := cw_wire w @ take n message\<rparr>
              in if u32 (i32 (int n)) \<noteq> int (length message)
                 then rbind (WriteBuffer_ptr (w_out w) (drop n message) (u32 (int (length message) - int n))) (\<lambda>b. Inr (put_out b w))
                 else Inr w
          | (WrError e, w) \<Rightarrow> if \<not> transient e then Inr (CloseInThread w)
              else rbind (WriteBuffer (w_out w) message) (\<lambda>b. Inr (put_out b w)))
       else rbind (WriteBuffer (w_out w) message) (\<lambda>b. Inr (put_out b w))) (\<lambda>w. Inr (watch_output w)))"
  by (simp add: WriteInThread_def watch_output_def)

lemma put_out_self: "put_out (w_out w) w = w"
  by (simp add: put_out_def upd_conn_def)

text \<open>What writing leads to: the invariant is kept and the stream has grown by \<open>ms\<close>.\<close>

definition appended :: "ConnWorld \<Rightarrow> bytes \<Rightarrow> ConnWorld \<Rightarrow> bool" where
  "appended w ms w' \<longleftrightarrow> conn_ok w' \<and> same_rest w w' \<and> cw_loop w' = cw_loop w \<and>
     (\<exists>bs. cw_wire w' = cw_wire w @ bs) \<and> cw_wire w' @ w_unsent w' = cw_wire w @ w_unsent w @ ms"

lemma appended_watch:
  assumes "conn_ok w" "w_status w = kConnecting" "buf_inv b" "bs @ buf_content b = w_unsent w @ ms"
  shows "appended w ms (watch_output (put_out b (w\<lparr>cw_writes := ws, cw_wire := cw_wire w @ bs\<rparr>)))"
  using watch_output_ok [OF assms(1-3), where wire = "cw_wire w @ bs" and ws = ws] assms(4)
  by (simp add: appended_def)

lemma appended_buffered:
  assumes "conn_ok w" "w_status w = kConnecting" "length (w_unsent w) + length message < 2147483648"
  shows "\<exists>b. WriteBuffer (w_out w) message = Inr b \<and> appended w message (watch_output (put_out b (w\<lparr>cw_writes := ws\<rparr>)))"
proof -
  have "buf_inv (w_out w)" using assms(1) by (simp add: conn_ok_def)
  from nb.put_law [OF this assms(3)] obtain b where "WriteBuffer (w_out w) message = Inr b" "buf_inv b"
    "buf_content b = w_unsent w @ message" by blast
  moreover from this appended_watch [OF assms(1,2), of b "[]" message ws]
  have "appended w message (watch_output (put_out b (w\<lparr>cw_writes := ws\<rparr>)))" by (simp add: put_out_def upd_conn_def)
  ultimately show ?thesis by blast
qed

lemma WriteInThread_taken:
  assumes ok: "conn_ok w" "w_status w = kConnecting" and empty: "w_unsent w = []" and room: "length message < 2147483648"
    and nw: "next_write w = (WrBytes k, w\<lparr>cw_writes := ws\<rparr>)" "k < 2147483648"
  shows "\<exists>w'. WriteInThread message w = Inr w' \<and> appended w message w'"
proof -
  define n where "n = min k (length message)"
  have n: "n \<le> length message" "n < 2147483648" using nw(2) by (auto simp: n_def)
  have inv: "buf_inv (w_out w)" using ok by (simp add: conn_ok_def)
  then have be: "Buffer_Empty (w_out w)" using empty by (simp add: Buffer_Empty_content)
  show ?thesis
  proof (cases "n = length message")
    case True
    with ok be nw empty room appended_watch [OF ok inv, of message message ws] show ?thesis
      by (simp add: WriteInThread_eq put_out_def upd_conn_def Let_def flip: n_def)
  next
    case False
    obtain b where b: "WriteBuffer (w_out w) (drop n message) = Inr b" "buf_inv b" "buf_content b = drop n message"
      using nb.put_law [OF inv, of "drop n message"] room empty by (auto simp: less_imp_diff_less)
    moreover have "WriteBuffer_ptr (w_out w) (drop n message) (int (length message) - int n) = WriteBuffer (w_out w) (drop n message)"
      using WriteBuffer_ptr_eq [OF inv, of "drop n message"] room empty n by simp
    ultimately show ?thesis
      using ok be nw False n empty room appended_watch [OF ok b(2), of "take n message" message ws]
      by (simp add: WriteInThread_eq put_out_def upd_conn_def Let_def flip: n_def)
  qed
qed

lemma WriteInThread_refused:
  assumes ok: "conn_ok w" "w_status w = kConnecting" and empty: "w_unsent w = []"
    and nw: "next_write w = (WrError e, w\<lparr>cw_writes := ws\<rparr>)" "\<not> transient e"
  shows "\<exists>w'. WriteInThread message w = Inr w' \<and> appended w [] w'"
proof -
  let ?w = "CloseInThread (w\<lparr>cw_writes := ws\<rparr>)"
  have be: "Buffer_Empty (w_out w)" using ok empty by (simp add: Buffer_Empty_content conn_ok_def)
  have "conn_ok (w\<lparr>cw_writes := ws\<rparr>)" using ok by (simp add: conn_ok_def)
  from CloseInThread_ok [OF this] empty have c: "conn_ok ?w" "cw_wire ?w = cw_wire w" "w_unsent ?w = []" "same_rest w ?w" "cw_loop ?w = cw_loop w"
    by (simp_all add: same_rest_def)
  then have "Buffer_Empty (w_out ?w)" by (simp add: Buffer_Empty_content conn_ok_def)
  with ok be nw c empty show ?thesis by (simp add: WriteInThread_eq watch_output_def appended_def)
qed

lemma WriteInThread_appends:
  assumes ok: "conn_ok w" and room: "length (w_unsent w) + length message < 2147483648"
  shows "\<exists>w'. WriteInThread message w = Inr w' \<and> appended w (if refuses w then [] else message) w'"
proof (cases "w_status w = kConnecting")
  case False
  with ok show ?thesis by (simp add: WriteInThread_eq refuses_def appended_def)
next
  case True
  note buffered = appended_buffered [OF ok True room]
  show ?thesis
  proof (cases "w_unsent w = []")
    case False
    then have "\<not> Buffer_Empty (w_out w)" using ok by (simp add: Buffer_Empty_content conn_ok_def)
    moreover have "w\<lparr>cw_writes := cw_writes w\<rparr> = w" by simp
    ultimately show ?thesis using True False buffered [of "cw_writes w"] by (auto simp: WriteInThread_eq refuses_def)
  next
    case empty: True
    have "0 \<le> tc_socket (cw_conn w)" using ok True by (auto simp: conn_ok_def)
    from next_write_open [OF this] obtain r ws where nw: "next_write w = (r, w\<lparr>cw_writes := ws\<rparr>)"
      and small: "\<And>k. r = WrBytes k \<Longrightarrow> k < 2147483648" by blast
    have be: "Buffer_Empty (w_out w)" using ok empty by (simp add: Buffer_Empty_content conn_ok_def)
    show ?thesis
    proof (cases r)
      case (WrBytes k)
      with WriteInThread_taken [OF ok True empty, of message k ws] nw small room empty show ?thesis by (simp add: refuses_def True)
    next
      case (WrError e)
      show ?thesis
      proof (cases "transient e")
        case tr: True
        with WrError nw be True empty buffered [of ws] show ?thesis by (auto simp: WriteInThread_eq refuses_def)
      next
        case False
        with WrError nw WriteInThread_refused [OF ok True empty, of e ws] empty show ?thesis by (simp add: refuses_def)
      qed
    qed
  qed
qed

lemmas WriteInThread_ok = WriteInThread_appends [unfolded appended_def]

lemma Tcp_Close_ok:
  assumes "conn_ok w"
  shows "conn_ok (Tcp_Close caller w) \<and> cw_wire (Tcp_Close caller w) = cw_wire w \<and> cw_writes (Tcp_Close caller w) = cw_writes w \<and>
    w_unsent (Tcp_Close caller w) = w_unsent w \<and> same_rest w (Tcp_Close caller w) \<and>
    (w_status w = kDisConnecting \<longrightarrow> w_status (Tcp_Close caller w) = kDisConnecting)"
proof -
  let ?w = "upd_conn (tc_close_requested_update (\<lambda>_. True)) w"
  have ok: "conn_ok ?w" using assms by (simp add: conn_ok_def)
  have sub: "conn_ok (submit_mission caller m v) = conn_ok v" "cw_wire (submit_mission caller m v) = cw_wire v"
    "cw_writes (submit_mission caller m v) = cw_writes v"
    "cw_conn (submit_mission caller m v) = cw_conn v" "same_rest v (submit_mission caller m v)" for m v
    by (simp_all add: submit_mission_def Submit_def conn_ok_def same_rest_def WakeUp_def push_mission_def split: sum.splits)
  have keep: "w_status (CloseInThread ?w) = kDisConnecting" if "w_status w = kDisConnecting"
    using CloseInThread_ok [OF ok] that assms by (cases "w_status (CloseInThread ?w)") (auto simp: conn_ok_def)
  show ?thesis
    using assms ok sub [where m = MCloseInThread and v = ?w] CloseInThread_ok [OF ok] keep
    by (auto simp: Tcp_Close_def Let_def same_rest_def)
qed

text \<open>
  The second half of \<open>WriteFd\<close>, on a connection that may have just sent its last byte.
\<close>

definition finish_write :: "ConnWorld \<Rightarrow> ConnWorld" where
  "finish_write w = (if Buffer_Empty (w_out w) then
       let w = (if has_event (ch_events (w_channel w)) kWrite then set_active (ch_events (w_channel w) XOR kWrite) w else w)
       in if w_status w = kDisConnecting then
            socket_close (remove_from_loop (run_close_callback (upd_conn (tc_status_update (\<lambda>_. kDisConnected)) w)))
          else w
     else w)"

definition conn_flushed :: "ConnWorld \<Rightarrow> bool" where
  "conn_flushed w \<longleftrightarrow> (if w_status w = kDisConnecting \<and> w_unsent w = [] then
      conn_ok (upd_conn (tc_status_update (\<lambda>_. kConnecting)) w) else conn_ok w)"

lemma Tcp_WriteFd_eq:
  "Tcp_WriteFd caller w = (if w_status w = kDisConnected then Inr w
     else case next_write w of (r, w) \<Rightarrow>
       rbind (WriteFd (w_out w) r) (\<lambda>(n, saveerrno, sent, b).
       let w = put_out b (w\<lparr>cw_wire := cw_wire w @ sent\<rparr>)
       in Inr (finish_write (if n < 0 \<and> (case saveerrno of None \<Rightarrow> False | Some e \<Rightarrow> \<not> transient e)
                then Tcp_Close caller w else w))))"
  by (simp add: Tcp_WriteFd_def finish_write_def Let_def split: prod.splits)

text \<open>A connection with nothing left to send, before the last steps of its shutdown.\<close>

definition drained :: "ConnWorld \<Rightarrow> bool" where
  "drained w \<longleftrightarrow> buf_inv (w_in w) \<and> buf_inv (w_out w) \<and> w_unsent w = [] \<and>
     ch_owner (w_channel w) = Some (ep_owner (cw_epoll w)) \<and> 0 \<le> ch_fd (w_channel w) \<and>
     tc_socket (cw_conn w) = ch_fd (w_channel w) \<and>
     w_interest w (ch_fd (w_channel w)) = Some (cw_id w, ch_events (w_channel w)) \<and> cw_notified w = 0"

definition shutdown :: "ConnWorld \<Rightarrow> ConnWorld" where
  "shutdown w = socket_close (remove_from_loop (run_close_callback (upd_conn (tc_status_update (\<lambda>_. kDisConnected)) w)))"

lemma shutdown_ok:
  assumes "drained w"
  shows "conn_ok (shutdown w) \<and> cw_wire (shutdown w) = cw_wire w \<and> w_unsent (shutdown w) = w_unsent w \<and>
    same_rest w (shutdown w)"
proof -
  let ?w = "run_close_callback (upd_conn (tc_status_update (\<lambda>_. kDisConnected)) w)"
  have "ch_owner (w_channel ?w) = Some (ep_owner (cw_epoll ?w))" "w_interest ?w (ch_fd (w_channel ?w)) \<noteq> None"
    using assms by (auto simp: drained_def run_close_callback_def)
  from remove_registered [OF this] assms show ?thesis
    by (simp add: shutdown_def socket_close_def drained_def conn_ok_def same_rest_def run_close_callback_def Let_def)
qed

lemma drained_set_active:
  "drained w \<Longrightarrow> drained (set_active ev w) \<and> w_status (set_active ev w) = w_status w \<and>
     cw_wire (set_active ev w) = cw_wire w \<and> w_unsent (set_active ev w) = w_unsent w \<and> same_rest w (set_active ev w)"
  by (simp add: set_active_registered drained_def same_rest_def)

lemma drained_conn_ok: "drained w \<Longrightarrow> w_status w = kConnecting \<Longrightarrow> conn_ok w"
  by (simp add: drained_def conn_ok_def)

lemma drainedI:
  "conn_flushed w \<Longrightarrow> w_unsent w = [] \<Longrightarrow> w_status w \<noteq> kDisConnected \<Longrightarrow> drained w"
  by (cases "w_status w") (simp_all add: conn_flushed_def conn_ok_def drained_def)

lemma finish_write_ok:
  assumes "conn_flushed w"
  shows "conn_ok (finish_write w) \<and> cw_wire (finish_write w) = cw_wire w \<and> w_unsent (finish_write w) = w_unsent w \<and>
    same_rest w (finish_write w)"
proof (cases "w_unsent w = []")
  case False
  then have "conn_ok w" using assms by (simp add: conn_flushed_def)
  with False show ?thesis by (simp add: finish_write_def Buffer_Empty_content conn_ok_def)
next
  case True
  have inv: "buf_inv (w_out w)" using assms by (auto simp: conn_flushed_def conn_ok_def split: if_splits)
  with True have be: "Buffer_Empty (w_out w)" by (simp add: Buffer_Empty_content)
  show ?thesis
  proof (cases "w_status w = kDisConnected")
    case closed: True
    then have "ch_owner (w_channel w) = None" using assms by (simp add: conn_flushed_def conn_ok_def)
    with closed assms be True show ?thesis
      by (auto simp: finish_write_def set_active_orphan conn_flushed_def conn_ok_def same_rest_def)
  next
    case False
    define w1 where "w1 = (if has_event (ch_events (w_channel w)) kWrite then set_active (ch_events (w_channel w) XOR kWrite) w else w)"
    have d: "drained w1 \<and> w_status w1 = w_status w \<and> cw_wire w1 = cw_wire w \<and> w_unsent w1 = w_unsent w \<and> same_rest w w1"
      using drainedI [OF assms True False] drained_set_active by (simp add: w1_def)
    have "finish_write w = (if w_status w1 = kDisConnecting then shutdown w1 else w1)"
      using be by (simp add: finish_write_def w1_def shutdown_def Let_def)
    with d shutdown_ok [of w1] drained_conn_ok [of w1] False same_rest_trans [of w w1 "shutdown w1"] show ?thesis
      by (cases "w_status w1") auto
  qed
qed

lemma Tcp_WriteFd_ok:
  assumes ok: "conn_ok w"
  shows "\<exists>w'. Tcp_WriteFd caller w = Inr w' \<and> conn_ok w' \<and> same_rest w w' \<and> (\<exists>bs. cw_wire w' = cw_wire w @ bs) \<and>
    cw_wire w' @ w_unsent w' = cw_wire w @ w_unsent w"
proof (cases "w_status w = kDisConnected")
  case True
  with ok show ?thesis by (simp add: Tcp_WriteFd_eq)
next
  case False
  have inv: "buf_inv (w_out w)" and sock: "0 \<le> tc_socket (cw_conn w)"
    using ok False by (auto simp: conn_ok_def)
  obtain r ws where nw: "next_write w = (r, w\<lparr>cw_writes := ws\<rparr>)"
    using next_write_open [OF sock] by blast
  show ?thesis
  proof (cases r)
    case (WrBytes k)
    obtain b where b: "WriteFd (w_out w) (WrBytes k) = Inr (int (min k (length (w_unsent w))), None, take k (w_unsent w), b)"
      "buf_inv b" "buf_content b = drop k (w_unsent w)"
      using WriteFd_ok [OF inv] by blast
    let ?w = "put_out b (w\<lparr>cw_writes := ws, cw_wire := cw_wire w @ take k (w_unsent w)\<rparr>)"
    have "conn_flushed ?w"
      using ok b False by (auto simp: conn_flushed_def conn_ok_def put_out_def)
    moreover have "same_rest w ?w" by (simp add: same_rest_def put_out_def)
    ultimately show ?thesis
      using finish_write_ok [of ?w] b nw WrBytes False same_rest_trans [of w ?w]
      by (simp add: Tcp_WriteFd_eq Let_def)
  next
    case (WrError e)
    let ?w = "w\<lparr>cw_writes := ws\<rparr>"
    have ok': "conn_ok ?w" using ok by (simp add: conn_ok_def)
    have same: "put_out (w_out w) (?w\<lparr>cw_wire := cw_wire w @ []\<rparr>) = ?w"
      by (simp add: put_out_def upd_conn_def)
    have fl: "conn_flushed v" if "conn_ok v" for v
      using that by (auto simp: conn_flushed_def conn_ok_def)
    note close = Tcp_Close_ok [OF ok', of caller]
    show ?thesis
      using WriteFd_error [OF inv, of e] nw WrError False same finish_write_ok [OF fl [OF ok']] close
        finish_write_ok [OF fl, of "Tcp_Close caller ?w"]
      by (cases "transient e") (auto simp: Tcp_WriteFd_eq same_rest_def Let_def)
  qed
qed

lemma Activate_ok:
  assumes "conn_ok w" "w_unsent w = [] \<or> w_status w \<noteq> kConnecting"
  shows "conn_ok (Activate caller w) \<and> cw_wire (Activate caller w) = cw_wire w \<and>
    w_unsent (Activate caller w) = w_unsent w \<and> same_rest w (Activate caller w)"
proof (cases "w_status w = kConnecting \<and> IsInThread caller (cw_loop w) \<and> ch_owner (w_channel w) \<noteq> None")
  case True
  with assms have "drained w" by (auto simp: drained_def conn_ok_def)
  from drained_set_active [OF this] True show ?thesis
    by (auto simp: Activate_def ActivateInThread_def drained_conn_ok)
next
  case False
  with assms(1) show ?thesis
    by (auto simp: Activate_def ActivateInThread_def submit_mission_def Submit_def WakeUp_def
        push_mission_def conn_ok_def same_rest_def IsInThread_def)
qed

section \<open>The byte stream of a connection\<close>

text \<open>
  What happens to the output side of a connection on its loop: messages written, the socket
  becoming writable, requests to close, and the missions that other threads submitted.
  \<open>accepted\<close> gives what an event adds to the stream.
\<close>

datatype conn_event = EvWrite bytes | EvWritable | EvClose | EvMission tcp_mission

primrec conn_step :: "nat \<Rightarrow> conn_event \<Rightarrow> ConnWorld \<Rightarrow> ConnWorld res" where
  "conn_step caller (EvWrite m) w = Tcp_Write caller w m"
| "conn_step caller EvWritable w = Tcp_WriteFd caller w"
| "conn_step caller EvClose w = Inr (Tcp_Close caller w)"
| "conn_step caller (EvMission m) w = run_tcp_mission m w"

definition accepted :: "conn_event \<Rightarrow> ConnWorld \<Rightarrow> bytes" where
  "accepted e w = (case e of
     EvWrite m \<Rightarrow> if refuses w then [] else m
   | EvMission (MWriteInThread m) \<Rightarrow> if refuses w \<or> \<not> tc_shared (cw_conn w) then [] else m
   | _ \<Rightarrow> [])"

definition event_bytes :: "conn_event \<Rightarrow> nat" where
  "event_bytes e = (case e of EvWrite m \<Rightarrow> length m | EvMission (MWriteInThread m) \<Rightarrow> length m | _ \<Rightarrow> 0)"

primrec run_conn :: "nat \<Rightarrow> conn_event list \<Rightarrow> ConnWorld \<Rightarrow> (bytes \<times> ConnWorld) res" where
  "run_conn caller [] w = Inr ([], w)"
| "run_conn caller (e # es) w = rbind (conn_step caller e w) (\<lambda>w1.
     rbind (run_conn caller es w1) (\<lambda>(ms, w2). Inr (accepted e w @ ms, w2)))"

lemma conn_step_ok:
  assumes "conn_ok w" "IsInThread caller (cw_loop w)" "e \<noteq> EvMission MActivateInThread"
    "length (w_unsent w) + event_bytes e < 2147483648"
  shows "\<exists>w'. conn_step caller e w = Inr w' \<and> conn_ok w' \<and> same_rest w w' \<and> (\<exists>bs. cw_wire w' = cw_wire w @ bs) \<and>
    cw_wire w' @ w_unsent w' = cw_wire w @ w_unsent w @ accepted e w"
proof (cases e)
  case (EvWrite m)
  have "refuses w" if "ch_owner (w_channel w) = None"
    using that assms(1) by (auto simp: refuses_def conn_ok_def)
  with EvWrite assms WriteInThread_ok [of w m] show ?thesis
    by (cases "ch_owner (w_channel w) = None") (auto simp: Tcp_Write_def accepted_def event_bytes_def)
next
  case EvWritable
  with Tcp_WriteFd_ok [OF assms(1)] show ?thesis by (simp add: accepted_def)
next
  case EvClose
  with Tcp_Close_ok [OF assms(1)] show ?thesis by (simp add: accepted_def)
next
  case (EvMission m)
  show ?thesis
  proof (cases m)
    case (MWriteInThread msg)
    with EvMission assms WriteInThread_ok [OF assms(1), of msg] show ?thesis
      by (cases "tc_shared (cw_conn w)") (auto simp: accepted_def event_bytes_def)
  qed (use EvMission assms CloseInThread_ok [OF assms(1)] in \<open>auto simp: accepted_def\<close>)
qed

lemma stream_step:
  "wire' @ unsent' = wire @ unsent @ acc \<Longrightarrow> wire' = wire @ bs \<Longrightarrow> length unsent' \<le> length unsent + length acc"
  by (drule arg_cong [of _ _ length]) simp

lemma accepted_bytes: "length (accepted e w) \<le> event_bytes e"
  by (auto simp: accepted_def event_bytes_def split: conn_event.splits tcp_mission.splits)

lemma run_conn_ok:
  assumes "conn_ok w" "IsInThread caller (cw_loop w)" "EvMission MActivateInThread \<notin> set es"
    "length (w_unsent w) + sum_list (map event_bytes es) < 2147483648"
  shows "\<exists>ms w'. run_conn caller es w = Inr (ms, w') \<and> conn_ok w' \<and> same_rest w w' \<and>
    (\<exists>bs. cw_wire w' = cw_wire w @ bs) \<and> cw_wire w' @ w_unsent w' = cw_wire w @ w_unsent w @ ms"
  using assms
proof (induction es arbitrary: w)
  case Nil
  then show ?case by simp
next
  case (Cons e es)
  have "length (w_unsent w) + event_bytes e < 2147483648" "e \<noteq> EvMission MActivateInThread"
    using Cons.prems by auto
  from conn_step_ok [OF Cons.prems(1,2) this(2,1)] obtain w1 bs where w1: "conn_step caller e w = Inr w1" "conn_ok w1"
    "same_rest w w1" "cw_wire w1 = cw_wire w @ bs" "cw_wire w1 @ w_unsent w1 = cw_wire w @ w_unsent w @ accepted e w"
    by blast
  have "length (w_unsent w1) + sum_list (map event_bytes es) < 2147483648"
    using stream_step [OF w1(5,4)] accepted_bytes [of e w] Cons.prems(4) by simp
  moreover have "IsInThread caller (cw_loop w1)"
    using Cons.prems(2) w1(3) by (simp add: IsInThread_def same_rest_def)
  ultimately obtain ms w2 bs2 where w2: "run_conn caller es w1 = Inr (ms, w2)" "conn_ok w2" "same_rest w1 w2"
    "cw_wire w2 = cw_wire w1 @ bs2" "cw_wire w2 @ w_unsent w2 = cw_wire w1 @ w_unsent w1 @ ms"
    using Cons.IH [OF w1(2)] Cons.prems(3) by auto
  have "cw_wire w2 @ w_unsent w2 = (cw_wire w1 @ w_unsent w1) @ ms" using w2(5) by simp
  also have "\<dots> = cw_wire w @ w_unsent w @ accepted e w @ ms" unfolding w1(5) by simp
  finally show ?case
    using w1 w2 same_rest_trans [OF w1(3) w2(3)] by auto
qed

section \<open>Properties\<close>

text \<open>
  C2. The output of a connection is a faithful byte stream. Whatever sequence of writes,
  writability events, close requests and submitted writes and closes its loop executes (an activation among the missions is excluded, since it
  would drop the interest in writability), and however the kernel splits or refuses writes, the bytes the kernel has taken followed by the bytes
  still buffered are the accepted messages in order, without loss, duplication or
  reordering; the bytes on the wire only grow; nothing fails; and when the connection is closed
  every accepted byte is on the wire.
\<close>

theorem connection_stream:
  assumes "conn_ok w" "IsInThread caller (cw_loop w)" "EvMission MActivateInThread \<notin> set es"
    "length (w_unsent w) + sum_list (map event_bytes es) < 2147483648"
  shows "\<exists>ms w'. run_conn caller es w = Inr (ms, w') \<and> conn_ok w' \<and>
    (\<exists>bs. cw_wire w' = cw_wire w @ bs) \<and> cw_wire w' @ w_unsent w' = cw_wire w @ w_unsent w @ ms \<and>
    (w_status w' = kDisConnected \<longrightarrow> cw_wire w' = cw_wire w @ w_unsent w @ ms)"
proof -
  from run_conn_ok [OF assms] obtain ms w' where "run_conn caller es w = Inr (ms, w')" "conn_ok w'"
    "\<exists>bs. cw_wire w' = cw_wire w @ bs" "cw_wire w' @ w_unsent w' = cw_wire w @ w_unsent w @ ms"
    by blast
  then show ?thesis by (auto simp: conn_ok_def)
qed

text \<open>The connection the witnesses start from: on loop 7, descriptor 5, three bytes waiting.\<close>

definition sample_conn :: ConnWorld where
  "sample_conn = \<lparr>cw_conn = \<lparr>tc_channel = \<lparr>ch_read_callback = Some CbRead, ch_write_callback = Some CbWriteFd,
       ch_error_callback = Some CbClose, ch_close_callback = Some CbClose, ch_save_life = None, ch_fd = 5,
       ch_events = kRead OR kWrite, ch_active_events = 0, ch_owner = Some 7, ch_tied = False\<rparr>,
     tc_status = kConnecting, tc_close_requested = False, tc_socket = 5, tc_read_buffer = mk_buf [] [] [0, 0],
     tc_write_buffer = mk_buf [] [1, 2, 3] [], tc_has_close_callback = True, tc_heartbeat = None, tc_shared = True\<rparr>,
   cw_id = 0, cw_epoll = \<lparr>ep_maxevents = 16, ep_owner = 7, ep_interest = Map.empty(5 \<mapsto> (0, kRead OR kWrite))\<rparr>,
   cw_loop = EventLoop_new 7 3 0, cw_wheel = None, cw_writes = [WrError 32, WrBytes 2], cw_wire = [9],
   cw_closed_fds = [], cw_notified = 0\<rparr>"

lemma sample_conn_ok: "conn_ok sample_conn" "IsInThread 7 (cw_loop sample_conn)"
  by (simp_all add: sample_conn_def conn_ok_def IsInThread_def EventLoop_new_def)

theorem connection_stream_witness:
  "\<exists>ms w'. run_conn 7 [EvWrite [4], EvWritable, EvWritable, EvClose, EvWritable] sample_conn = Inr (ms, w') \<and> conn_ok w' \<and>
    (\<exists>bs. cw_wire w' = cw_wire sample_conn @ bs) \<and> cw_wire w' @ w_unsent w' = cw_wire sample_conn @ w_unsent sample_conn @ ms \<and>
    (w_status w' = kDisConnected \<longrightarrow> cw_wire w' = cw_wire sample_conn @ w_unsent sample_conn @ ms)"
  by (rule connection_stream [OF sample_conn_ok]) (simp_all add: sample_conn_def event_bytes_def)

text \<open>A writability event when the kernel refuses the write with the error \<open>e\<close>.\<close>

lemma WriteFd_failed:
  assumes ok: "conn_ok w" "w_unsent w \<noteq> []" and nw: "next_write w = (WrError e, w\<lparr>cw_writes := ws\<rparr>)"
  shows "Tcp_WriteFd caller w = Inr (if transient e then w\<lparr>cw_writes := ws\<rparr> else Tcp_Close caller (w\<lparr>cw_writes := ws\<rparr>))"
proof -
  have open_w: "w_status w \<noteq> kDisConnected" "buf_inv (w_out w)" "0 \<le> tc_socket (cw_conn w)"
    using ok by (auto simp: conn_ok_def)
  let ?w = "w\<lparr>cw_writes := ws\<rparr>"
  have "conn_ok ?w" using ok by (simp add: conn_ok_def)
  note close = this Tcp_Close_ok [OF this, of caller]
  have same: "put_out (w_out w) (?w\<lparr>cw_wire := cw_wire w @ []\<rparr>) = ?w"
    by (simp add: put_out_def upd_conn_def)
  have fin: "finish_write v = v" if "conn_ok v" "w_unsent v \<noteq> []" for v
    using that by (simp add: finish_write_def Buffer_Empty_content conn_ok_def)
  show ?thesis
    using WriteFd_error [OF open_w(2), of e] open_w nw same close ok fin [of ?w] fin [of "Tcp_Close caller ?w"]
    by (cases "transient e") (simp_all add: Tcp_WriteFd_eq Let_def)
qed

text \<open>A connection that waits in \<open>kDisConnecting\<close> for its bytes to leave while every write fails.\<close>

definition stuck :: "ConnWorld \<Rightarrow> bool" where
  "stuck w \<longleftrightarrow> conn_ok w \<and> w_status w = kDisConnecting \<and> tc_close_requested (cw_conn w) \<and>
     (\<forall>r \<in> set (cw_writes w). \<exists>e. r = WrError e)"

lemma stuck_writable:
  assumes "stuck w"
  shows "\<exists>w'. Tcp_WriteFd caller w = Inr w' \<and> stuck w' \<and> w_unsent w' = w_unsent w"
proof -
  have w: "conn_ok w" "w_unsent w \<noteq> []" "0 \<le> tc_socket (cw_conn w)" "tc_close_requested (cw_conn w)"
    using assms by (auto simp: stuck_def conn_ok_def)
  obtain e ws where nw: "next_write w = (WrError e, w\<lparr>cw_writes := ws\<rparr>)" "set ws \<subseteq> set (cw_writes w)"
  proof (cases "cw_writes w")
    case Nil
    then have "w\<lparr>cw_writes := []\<rparr> = w" by (cases w) simp
    with Nil w(3) show ?thesis by (intro that [of EAGAIN "[]"]) (simp_all add: next_write_def)
  next
    case (Cons r rs)
    with assms obtain e where "r = WrError e" by (auto simp: stuck_def)
    with Cons w(3) show ?thesis by (intro that [of e rs]) (auto simp: next_write_def)
  qed
  have "Tcp_WriteFd caller w = Inr (w\<lparr>cw_writes := ws\<rparr>)"
    using WriteFd_failed [OF w(1,2) nw(1)] w(4) by (simp add: Tcp_Close_def)
  moreover have "stuck (w\<lparr>cw_writes := ws\<rparr>)" using assms nw(2) by (auto simp: stuck_def conn_ok_def)
  ultimately show ?thesis by simp
qed

lemma stuck_run:
  "stuck w \<Longrightarrow> \<exists>w'. run_conn caller (replicate n EvWritable) w = Inr ([], w') \<and> stuck w' \<and> w_unsent w' = w_unsent w"
proof (induction n arbitrary: w)
  case (Suc n)
  obtain w1 where "Tcp_WriteFd caller w = Inr w1" "stuck w1" "w_unsent w1 = w_unsent w"
    using stuck_writable [OF Suc.prems] by blast
  with Suc.IH [of w1] show ?case by (auto simp: accepted_def)
qed simp

text \<open>
  C35. A socket that has failed keeps its connection open for ever: when a write of waiting bytes fails with a
  fatal error, the connection calls \<open>Close\<close> and enters \<open>kDisConnecting\<close> to wait for its buffer to empty;
  as every further write fails too, it is still in that state after any number of writability events, its descriptor open
  and watched for writability, its bytes unsent, the owner never told.
\<close>

theorem failed_socket_never_closes:
  assumes "conn_ok w" "w_status w = kConnecting" "w_unsent w \<noteq> []" "IsInThread caller (cw_loop w)" "\<not> tc_close_requested (cw_conn w)"
    and "cw_writes w = WrError e # rs" "\<not> transient e" "\<forall>r \<in> set rs. \<exists>e. r = WrError e"
  shows "\<exists>w'. run_conn caller (replicate (Suc n) EvWritable) w = Inr ([], w') \<and> w_status w' = kDisConnecting \<and>
    tc_close_requested (cw_conn w') \<and> w_unsent w' = w_unsent w \<and> 0 \<le> tc_socket (cw_conn w') \<and> cw_notified w' = 0 \<and>
    has_event (ch_events (w_channel w')) kWrite"
proof -
  let ?w = "w\<lparr>cw_writes := rs\<rparr>"
  let ?c = "upd_conn (tc_close_requested_update (\<lambda>_. True)) ?w"
  have w: "buf_inv (w_out w)" "0 \<le> tc_socket (cw_conn w)" "ch_owner (w_channel w) = Some (ep_owner (cw_epoll w))"
    using assms(1,2) by (auto simp: conn_ok_def)
  have "next_write w = (WrError e, ?w)" using w(2) assms(6) by (simp add: next_write_def)
  from WriteFd_failed [OF assms(1,3) this, of caller] assms(4,5,7) w(3)
  have step: "Tcp_WriteFd caller w = Inr (CloseInThread ?c)" by (simp add: Tcp_Close_def Let_def)
  have "conn_ok ?c" using assms(1) by (simp add: conn_ok_def)
  note close = CloseInThread_ok [OF this]
  have "\<not> Buffer_Empty (w_out w)" using assms(3) w(1) by (simp add: Buffer_Empty_content)
  then have st: "w_status (CloseInThread ?c) = kDisConnecting" "tc_close_requested (cw_conn (CloseInThread ?c))"
    using assms(2) by (simp_all add: CloseInThread_def Let_def set_active_def upd_conn_def split: sum.splits prod.splits)
  then have "stuck (CloseInThread ?c)" using close assms(8) by (simp add: stuck_def)
  from stuck_run [OF this, of caller n] obtain w' where
    w': "run_conn caller (replicate n EvWritable) (CloseInThread ?c) = Inr ([], w')" "stuck w'" "w_unsent w' = w_unsent w"
    using close by auto
  with step show ?thesis by (auto simp: accepted_def stuck_def conn_ok_def)
qed

theorem failed_socket_never_closes_witness:
  "\<exists>w'. run_conn 7 (replicate (Suc 2) EvWritable) (sample_conn\<lparr>cw_writes := [WrError 32, WrError 32]\<rparr>) = Inr ([], w') \<and>
    w_status w' = kDisConnecting \<and> tc_close_requested (cw_conn w') \<and>
    w_unsent w' = w_unsent (sample_conn\<lparr>cw_writes := [WrError 32, WrError 32]\<rparr>) \<and>
    0 \<le> tc_socket (cw_conn w') \<and> cw_notified w' = 0 \<and> has_event (ch_events (w_channel w')) kWrite"
proof (rule failed_socket_never_closes [where e = 32 and rs = "[WrError 32]"])
  show "conn_ok (sample_conn\<lparr>cw_writes := [WrError 32, WrError 32]\<rparr>)"
    using sample_conn_ok(1) by (simp add: conn_ok_def)
  show "IsInThread 7 (cw_loop (sample_conn\<lparr>cw_writes := [WrError 32, WrError 32]\<rparr>))" using sample_conn_ok(2) by simp
qed (simp_all add: sample_conn_def transient_def EAGAIN_def EWOULDBLOCK_def EINTR_def)

text \<open>
  C36. Activation forgets pending output: \<open>ActivateInThread\<close> sets the watched events to read
  and close instead of adding them, so that a connection which already has bytes waiting, as
  when the new-connection callback wrote more than the socket took, is no longer watched for
  writability.
\<close>

theorem activate_drops_write_interest:
  assumes "conn_ok w" "IsInThread caller (cw_loop w)" "w_status w = kConnecting" "w_unsent w \<noteq> []"
  shows "w_unsent (Activate caller w) \<noteq> [] \<and> w_status (Activate caller w) = kConnecting \<and>
    w_interest (Activate caller w) (ch_fd (w_channel w)) = Some (cw_id w, kRead OR kClose) \<and>
    \<not> has_event (kRead OR kClose) kWrite"
proof -
  have reg: "ch_owner (w_channel w) = Some (ep_owner (cw_epoll w))" "w_interest w (ch_fd (w_channel w)) \<noteq> None"
    using assms by (auto simp: conn_ok_def)
  have "\<not> has_event (kRead OR kClose) kWrite"
    by (simp add: has_event_def kRead_def kClose_def kWrite_def)
  with assms reg show ?thesis
    by (simp add: Activate_def ActivateInThread_def set_active_registered)
qed

theorem activate_drops_write_interest_witness:
  "w_unsent (Activate 7 sample_conn) \<noteq> [] \<and> w_status (Activate 7 sample_conn) = kConnecting \<and>
    w_interest (Activate 7 sample_conn) (ch_fd (w_channel sample_conn)) = Some (cw_id sample_conn, kRead OR kClose) \<and>
    \<not> has_event (kRead OR kClose) kWrite"
  by (rule activate_drops_write_interest [OF sample_conn_ok]) (simp_all add: sample_conn_def)

section \<open>The default message handler\<close>

definition frame :: "bytes \<Rightarrow> bytes" where
  "frame m = be_bytes 4 (of_nat (length m) :: 32 word) @ m"

text \<open>
  The reference: the answers to the frames that the bytes \<open>c\<close> begin with, whether a frame
  announces more than 100000 bytes, and the bytes that are left.
\<close>

function echo_frames :: "bytes \<Rightarrow> bytes list \<times> bool \<times> bytes" where
  "echo_frames c = (if length c < 4 then ([], False, c)
     else let len = unat (of_be (take 4 c) :: 32 word) in
       if 100000 < len then ([], True, c)
       else if length c < len + 4 then ([], False, c)
       else let (out, closed, rest) = echo_frames (drop (len + 4) c)
            in (frame (take len (drop 4 c) @ [32, 79, 75, 33]) # out, closed, rest))"
  by pat_completeness auto
termination
  by (relation "measure length") auto

declare echo_frames.simps [simp del]

lemma default_iter_cases:
  assumes "buf_inv b" "4 \<le> length (buf_content b)"
  defines "c \<equiv> buf_content b"
  defines "len \<equiv> unat (of_be (take 4 c) :: 32 word)"
  shows "100000 < len \<Longrightarrow> default_iter big Write Close (conn, b) = rbind (Close conn) (\<lambda>conn. Inr (True, conn, b))"
    and "len \<le> 100000 \<Longrightarrow> length c < len + 4 \<Longrightarrow> default_iter big Write Close (conn, b) = Inr (True, conn, b)"
    and "len \<le> 100000 \<Longrightarrow> len + 4 \<le> length c \<Longrightarrow> \<exists>b'. default_iter big Write Close (conn, b) =
      rbind (Write conn (frame (take len (drop 4 c) @ [32, 79, 75, 33]))) (\<lambda>conn. Inr (False, conn, b')) \<and>
      buf_inv b' \<and> buf_content b' = drop (len + 4) c"
proof -
  have "hton big (load_int big (take 4 c) :: 32 word) = of_be (take 4 c)"
    using assms(2) hton_load_int [of "take 4 c" big, where 'a = 32] by (simp add: c_def)
  then have word: "unat (hton big (load_int big (take 4 c) :: 32 word)) = len" by (simp add: len_def)
  have peek: "PeekUnsignedInt big b = Inr (load_int big (take 4 c))" "Buffer_Size b = length c"
    using assms(1,2) by (simp_all add: PeekUnsignedInt_ok Buffer_Size_content c_def)
  note iter = default_iter_def peek Let_def word
  show "default_iter big Write Close (conn, b) = rbind (Close conn) (\<lambda>conn. Inr (True, conn, b))" if "100000 < len"
    using that by (simp add: iter)
  show "default_iter big Write Close (conn, b) = Inr (True, conn, b)" if "len \<le> 100000" "length c < len + 4"
    using that by (simp add: iter)
  assume le: "len \<le> 100000" "len + 4 \<le> length c"
  obtain b1 where b1: "ReadBuffer b 4 = Inr (take 4 c, b1)" "buf_inv b1" "buf_content b1 = drop 4 c"
    using nb.get_law [OF assms(1,2)] by (auto simp: c_def)
  have "len \<le> length (drop 4 c)" using le(2) by simp
  with b1(3) obtain b2 where b2: "ReadBuffer b1 len = Inr (take len (drop 4 c), b2)" "buf_inv b2" "buf_content b2 = drop (len + 4) c"
    using nb.get_law [OF b1(2), of len] by auto
  let ?m = "take len (drop 4 c) @ [32, 79, 75, 33]"
  have "store_int big (hton big (of_nat (length ?m) :: 32 word)) @ ?m = frame ?m"
    using store_int_hton [of "of_nat (length ?m) :: 32 word" big] by (simp only: frame_def int_size_simps) simp
  with le b1 b2 have "default_iter big Write Close (conn, b) = rbind (Write conn (frame ?m)) (\<lambda>conn. Inr (False, conn, b2))"
    by (simp add: iter)
  with b2 show "\<exists>b'. default_iter big Write Close (conn, b) = rbind (Write conn (frame ?m)) (\<lambda>conn. Inr (False, conn, b')) \<and>
      buf_inv b' \<and> buf_content b' = drop (len + 4) c" by blast
qed

text \<open>
  C31. The default message handler returns on every input and does exactly what the reference
  \<open>echo_frames\<close> says: it answers the complete frames it finds, in order, each with its message
  and \<open>" OK!"\<close> in a frame of its own, closes the connection at a frame that announces more than
  100000 bytes, keeps an incomplete frame in the buffer, and fails only if the connection's own
  \<open>Write\<close> or \<open>Close\<close> does.
\<close>

theorem default_on_message_returns:
  assumes "buf_inv b" "echo_frames (buf_content b) = (out, closed, rest)"
  shows "\<exists>b'. default_on_message big Write Close (conn, b) =
      Some (rbind (play Write Close conn out closed) (\<lambda>conn. Inr (conn, b'))) \<and> buf_inv b' \<and> buf_content b' = rest"
  using assms
proof (induction "length (buf_content b)" arbitrary: b conn out rule: less_induct)
  case less
  let ?c = "buf_content b"
  let ?len = "unat (of_be (take 4 ?c) :: 32 word)"
  note inv = less.prems(1) and ref = less.prems(2) [unfolded echo_frames.simps [of ?c] Let_def]
  note unfold = default_on_message.simps [of big Write Close "(conn, b)"] Buffer_Size_content [OF inv] play_def
  show ?case
  proof (cases "length ?c < 4")
    case True
    with inv ref show ?thesis by (simp add: unfold)
  next
    case False
    then have len: "4 \<le> length ?c" by simp
    note iter = default_iter_cases [OF inv len, where big = big and Write = Write and Close = Close and conn = conn]
    consider (big) "100000 < ?len" | (short) "?len \<le> 100000" "length ?c < ?len + 4" | (whole) "?len \<le> 100000" "?len + 4 \<le> length ?c"
      by linarith
    then show ?thesis
    proof cases
      case big
      with inv ref len iter(1) show ?thesis by (cases "Close conn") (auto simp: unfold)
    next
      case short
      with inv ref len iter(2) show ?thesis by (simp add: unfold)
    next
      case whole
      let ?r = "frame (take ?len (drop 4 ?c) @ [32, 79, 75, 33])"
      obtain b1 where b1: "default_iter big Write Close (conn, b) = rbind (Write conn ?r) (\<lambda>conn. Inr (False, conn, b1))"
        "buf_inv b1" "buf_content b1 = drop (?len + 4) ?c"
        using iter(3) whole by blast
      obtain out' where out: "out = ?r # out'" and rec: "echo_frames (buf_content b1) = (out', closed, rest)"
        using ref len whole b1(3) by (auto split: prod.splits)
      have "length (buf_content b1) < length ?c" using b1(3) len by simp
      note IH = less.hyps [OF this b1(2) rec]
      show ?thesis
        using IH [of "case Write conn ?r of Inr c \<Rightarrow> c"] b1(1) out len
        by (cases "Write conn ?r") (auto simp: unfold)
    qed
  qed
qed

theorem default_on_message_returns_witness:
  "\<exists>b'. default_on_message False (\<lambda>c m. Inr (c @ [m])) Inr ([], mk_buf [] [0, 0, 0, 1, 65, 0, 0] []) =
      Some (rbind (play (\<lambda>c m. Inr (c @ [m])) Inr [] [frame ([65] @ [32, 79, 75, 33])] False) (\<lambda>conn. Inr (conn, b'))) \<and>
    buf_inv b' \<and> buf_content b' = [0, 0]"
  by (rule default_on_message_returns)
    (simp_all add: echo_frames.simps [of "[0, 0, 0, 1, 65, 0, 0]"] echo_frames.simps [of "[0, 0]"] of_be_def)

end
