(* ===== verification/Tcp_Server.thy ===== *)
theory Tcp_Server
  imports Net_Acceptor Thread_Pool Tcp_Conn
begin

text \<open>
  \<open>adachi::network::TcpServer\<close> (\<^verbatim>\<open>src/tcpserver.cpp\<close>): the base loop that accepts, the pool of
  io loops, and what happens to a descriptor from \<open>accept4\<close> until its connection is active.
\<close>

section \<open>State\<close>

datatype server_callback = CbAcceptLoop

text \<open>The callback of the application that runs before a connection is erased is a number, 0 being the empty one.\<close>

record TcpServer =
  ts_listenaddr :: INetAddress
  ts_pool :: EventLoopThreadPool
  ts_acceptor_thread :: EventLoopThread
  ts_baseloop :: nat
  ts_acceptor :: "server_callback Acceptor"
  ts_tcpst :: "nat set"
  ts_closecallback :: nat
  ts_isheartbeat :: bool

text \<open>
  The server in its surroundings: \<open>sw_ep\<close> is the poller of the base loop, \<open>sw_loops\<close> the loops that
  exist, \<open>sw_owner\<close> the loop to which the channel of a connection belongs, none once it was removed,
  \<open>sw_closed_fds\<close> the descriptors closed, \<open>sw_submitted\<close> what was submitted to the io
  loops, in order: the loop, the descriptor and the peer's address.
\<close>

record ServerWorld =
  sw_server :: TcpServer
  sw_ep :: Epoll
  sw_loops :: loops
  sw_owner :: "nat \<Rightarrow> nat option"
  sw_closed_fds :: "int list"
  sw_submitted :: "(nat \<times> int \<times> INetAddress) list"

text \<open>
  What the system calls answer: \<open>socket\<close>, \<open>bind\<close>, \<open>listen\<close>, the registration of the listening socket, and \<open>eventfd\<close>
  for each loop, and what addresses need of the host.
\<close>

record server_env =
  se_socket :: int
  se_bind :: "int \<Rightarrow> sockaddr_in \<Rightarrow> nat \<Rightarrow> int"
  se_listen :: "int \<Rightarrow> int \<Rightarrow> int"
  se_add_ok :: bool
  se_host :: net_host
  se_eventfd :: "nat \<Rightarrow> int"

text \<open>The address of the acceptor's channel.\<close>

definition accept_chan :: nat where "accept_chan = 0"

definition upd_server :: "(TcpServer \<Rightarrow> TcpServer) \<Rightarrow> ServerWorld \<Rightarrow> ServerWorld" where
  "upd_server f sw = sw\<lparr>sw_server := f (sw_server sw)\<rparr>"

section \<open>Construction, start and end\<close>

definition SetSubThreadNum :: "int \<Rightarrow> ServerWorld \<Rightarrow> ServerWorld" where
  "SetSubThreadNum num sw = upd_server (ts_pool_update (SetSize num)) sw"

text \<open>\<open>tid\<close> is the calling thread; a loop runs in the thread with its own number.\<close>

definition Server_SetNewconnectionCallback :: "nat \<Rightarrow> ServerWorld \<Rightarrow> ServerWorld res" where
  "Server_SetNewconnectionCallback tid sw = (let ts = sw_server sw in
     rbind (Acceptor_SetNewconnectionCallback (ts_baseloop ts \<in> dom (sw_loops sw)) (ts_baseloop ts = tid) accept_chan
        CbAcceptLoop (sw_ep sw, ts_acceptor ts)) (\<lambda>(ep, ac).
     Inr (upd_server (ts_acceptor_update (\<lambda>_. ac)) (sw\<lparr>sw_ep := ep\<rparr>))))"

text \<open>\<open>base\<close> is the loop that the acceptor's thread starts.\<close>

definition TcpServer_new ::
  "server_env \<Rightarrow> nat \<Rightarrow> nat \<Rightarrow> INetAddress \<Rightarrow> TimerOpt \<Rightarrow> int \<Rightarrow> loops \<Rightarrow> ServerWorld res" where
  "TcpServer_new env tid base listenaddr timeropt maxevents loops =
     (let pool = EventLoopThreadPool_new timeropt maxevents;
          (baseloop, et, loops) = EventLoopThread_Start (se_eventfd env) base (EventLoopThread_new timeropt maxevents, loops);
          (bound, ep, ac) = Acceptor_new (se_bind env) (Epoll_new base maxevents) (se_add_ok env) accept_chan (se_socket env) listenaddr
      in case ep of
           None \<Rightarrow> Inl UB
         | Some ep \<Rightarrow>
             Server_SetNewconnectionCallback tid (SetSubThreadNum 1
               \<lparr>sw_server = \<lparr>ts_listenaddr = INetAddress_copy (se_host env) listenaddr, ts_pool = pool, ts_acceptor_thread = et,
                   ts_baseloop = baseloop, ts_acceptor = ac, ts_tcpst = {}, ts_closecallback = 0,
                   ts_isheartbeat = to_heartbeat_num timeropt > 0\<rparr>,
                sw_ep = ep, sw_loops = loops, sw_owner = \<lambda>_. None, sw_closed_fds = [], sw_submitted = []\<rparr>))"

definition TcpServer_Start :: "server_env \<Rightarrow> nat \<Rightarrow> (nat \<Rightarrow> nat) \<Rightarrow> ServerWorld \<Rightarrow> ServerWorld res" where
  "TcpServer_Start env tid lps sw =
     rbind (Pool_Start (se_eventfd env) lps (ts_pool (sw_server sw), sw_loops sw)) (\<lambda>(pool, loops).
     let sw = upd_server (ts_pool_update (\<lambda>_. pool)) (sw\<lparr>sw_loops := loops\<rparr>); ts = sw_server sw in
     rbind (Acceptor_Listen (se_listen env) (ts_baseloop ts \<in> dom (sw_loops sw)) (ts_baseloop ts = tid) accept_chan 1024
        (sw_ep sw, ts_acceptor ts)) (\<lambda>(ok, ep, ac).
     Inr (upd_server (ts_acceptor_update (\<lambda>_. ac)) (sw\<lparr>sw_ep := ep\<rparr>))))"

definition TcpServer_Close :: "ServerWorld \<Rightarrow> ServerWorld res" where
  "TcpServer_Close sw = (let ts = sw_server sw in
     rbind (stop_loop (ts_baseloop ts) (sw_loops sw)) (\<lambda>loops.
     rbind (EventLoopThread_Join (ts_acceptor_thread ts, loops)) (\<lambda>(et, loops).
     rbind (Pool_Close (ts_pool ts, loops)) (\<lambda>(pool, loops).
     Inr (upd_server (\<lambda>ts. ts\<lparr>ts_acceptor_thread := et, ts_pool := pool\<rparr>) (sw\<lparr>sw_loops := loops\<rparr>))))))"

text \<open>
  The destruction of the connections the server still holds: the destructor of a connection removes its channel
  from the loop that owns it, which goes through the pointer to that loop. A connection without an owner has
  closed its socket already.
\<close>

definition destroy_conns :: "nat set \<Rightarrow> (nat \<Rightarrow> nat option) \<Rightarrow> loops \<Rightarrow> unit res" where
  "destroy_conns tcpst owner loops =
     (if \<forall>c \<in> tcpst. case owner c of None \<Rightarrow> True | Some lp \<Rightarrow> loops lp \<noteq> None then Inr () else Inl UB)"

text \<open>The destructor: \<open>Close\<close>, then the members in reverse order of their declaration.\<close>

definition TcpServer_destroy :: "ServerWorld \<Rightarrow> (loops \<times> int list) res" where
  "TcpServer_destroy sw =
     rbind (TcpServer_Close sw) (\<lambda>sw. let ts = sw_server sw in
     rbind (destroy_conns (ts_tcpst ts) (sw_owner sw) (sw_loops sw)) (\<lambda>_.
     let closed = Socket_destroy (ac_socket (ts_acceptor ts)) (sw_closed_fds sw) in
     rbind (EventLoopThread_destroy (ts_acceptor_thread ts, sw_loops sw)) (\<lambda>loops.
     rbind (destroy_threads (tp_threads (ts_pool ts)) loops) (\<lambda>loops.
     Inr (loops, closed)))))"

text \<open>The threads of the loops in \<open>E\<close> come to \<open>Loop\<close>.\<close>

definition run_threads :: "nat set \<Rightarrow> ServerWorld \<Rightarrow> ServerWorld" where
  "run_threads E sw = sw\<lparr>sw_loops := enter_loops E (sw_loops sw)\<rparr>"

section \<open>New connections\<close>

text \<open>
  The acceptor's callback. The peer's address is copied into a local variable and moved into
  the closure that is submitted to the io loop.
\<close>

definition server_on_accept :: "net_host \<Rightarrow> int \<Rightarrow> INetAddress \<Rightarrow> int \<Rightarrow> ServerWorld \<Rightarrow> ServerWorld res" where
  "server_on_accept nh fd addr saveerrno sw =
     (if fd \<ge> 0 then
        rbind (GetOneThread (ts_pool (sw_server sw))) (\<lambda>(io_loop, pool).
        let sw = upd_server (ts_pool_update (\<lambda>_. pool)) sw in
        case io_loop of
          None \<Rightarrow> Inr (sw\<lparr>sw_closed_fds := sw_closed_fds sw @ [fd]\<rparr>)
        | Some lp \<Rightarrow>
            let peer_addr = INetAddress_copy nh (INetAddress_copy nh addr) in
            if lp \<notin> dom (sw_loops sw) then Inl UB
            else Inr (sw\<lparr>sw_submitted := sw_submitted sw @ [(lp, fd, peer_addr)]\<rparr>))
      else Inr sw)"

text \<open>
  The closure, on the io loop's thread \<open>tid\<close>, for the connection \<open>c\<close>: \<open>ob\<close> is the address of its
  heartbeat object and \<open>callback\<close> what the application installed. The thread waits until the base loop has inserted
  the connection into the set of connections; \<open>fate\<close> is what becomes of that mission. The close callback
  removes the connection again (\<open>server_erase\<close>).
\<close>

definition server_establish ::
  "net_host \<Rightarrow> bool \<Rightarrow> (ConnWorld \<Rightarrow> ConnWorld res) \<Rightarrow> loop_fate \<Rightarrow> nat \<Rightarrow> nat \<Rightarrow> nat \<Rightarrow> int \<Rightarrow> INetAddress \<Rightarrow>
   Epoll \<times> tcp_mission EventLoop \<times> Wheel option \<times> bool \<Rightarrow> nat set \<Rightarrow> (INetAddress \<times> ConnWorld \<times> nat set) res" where
  "server_establish nh isheartbeat callback fate tid c ob fd peer_addr io tcpst = (case io of (ep, loop, wheel, add_ok) \<Rightarrow>
     rbind (TcpConnection_new ep loop wheel add_ok c fd 1024 1024) (\<lambda>w.
     let addr = INetAddress_assign nh peer_addr INetAddress_new in
     rbind (if isheartbeat then SaveLifeMechanism ob w else Inr w) (\<lambda>w.
     rbind (await fate) (\<lambda>_.
     let tcpst = insert c tcpst; w = Tcp_SetCloseCallback w in
     rbind (callback w) (\<lambda>w. Inr (addr, Activate tid w, tcpst))))))"

text \<open>What the base loop's mission does to the server: the connection \<open>c\<close>, whose channel is in the loop \<open>lp\<close>, is held from then on.\<close>

definition server_insert :: "nat \<Rightarrow> nat \<Rightarrow> ServerWorld \<Rightarrow> ServerWorld" where
  "server_insert c lp sw = upd_server (ts_tcpst_update (insert c)) (sw\<lparr>sw_owner := (sw_owner sw)(c := Some lp)\<rparr>)"

definition Server_SetCloseCallback :: "nat \<Rightarrow> ServerWorld \<Rightarrow> ServerWorld" where
  "Server_SetCloseCallback callback sw = upd_server (ts_closecallback_update (\<lambda>_. callback)) sw"

definition server_erase :: "nat \<Rightarrow> nat set \<Rightarrow> nat set" where
  "server_erase c tcpst = tcpst - {c}"

section \<open>Accepted descriptors\<close>

text \<open>The pool of the server runs and its loops exist.\<close>

definition server_ready :: "ServerWorld \<Rightarrow> bool" where
  "server_ready sw \<longleftrightarrow> pool_inv (ts_pool (sw_server sw)) \<and> tp_running (ts_pool (sw_server sw)) \<and>
     set (tp_oper_threads (ts_pool (sw_server sw))) \<subseteq> dom (sw_loops sw)"

text \<open>The loop for the \<open>i\<close>-th connection, and what is submitted for it.\<close>

definition turn :: "EventLoopThreadPool \<Rightarrow> nat \<Rightarrow> nat" where
  "turn tp i = tp_oper_threads tp ! nat ((tp_pos tp + int i) mod tp_num tp)"

definition submission :: "net_host \<Rightarrow> EventLoopThreadPool \<Rightarrow> nat \<times> acc_result \<Rightarrow> nat \<times> int \<times> INetAddress" where
  "submission nh tp x = (case x of (i, r) \<Rightarrow> case r of
     AccFd fd peer \<Rightarrow> (turn tp i, int fd, INetAddress_copy nh (INetAddress_copy nh (peer_address peer)))
   | AccError e \<Rightarrow> (turn tp i, -1, INetAddress_new))"

lemma upd_server_simps [simp]:
  "sw_server (upd_server f sw) = f (sw_server sw)" "sw_ep (upd_server f sw) = sw_ep sw"
  "sw_loops (upd_server f sw) = sw_loops sw" "sw_owner (upd_server f sw) = sw_owner sw" "sw_closed_fds (upd_server f sw) = sw_closed_fds sw"
  "sw_submitted (upd_server f sw) = sw_submitted sw"
  by (simp_all add: upd_server_def)

lemma accept_one:
  assumes "server_ready sw"
  defines "tp \<equiv> ts_pool (sw_server sw)"
  shows "\<exists>sw'. server_on_accept nh (int fd) (peer_address peer) e sw = Inr sw' \<and> server_ready sw' \<and>
    sw_submitted sw' = sw_submitted sw @ [submission nh tp (0, AccFd fd peer)] \<and> sw_closed_fds sw' = sw_closed_fds sw \<and>
    (\<forall>i. turn (ts_pool (sw_server sw')) i = turn tp (Suc i))"
proof -
  let ?tp = "tp\<lparr>tp_pos := (tp_pos tp + 1) mod tp_num tp\<rparr>"
  have inv: "pool_inv tp" "tp_running tp" "set (tp_oper_threads tp) \<subseteq> dom (sw_loops sw)"
    using assms(1) by (simp_all add: server_ready_def tp_def)
  note one = GetOneThread_ok [OF inv(1,2)]
  have "nat (tp_pos tp mod tp_num tp) < length (tp_oper_threads tp)"
    using inv by (simp add: pool_inv_def nat_less_iff) (smt (verit) pos_mod_bound)
  with inv(3) have "tp_oper_threads tp ! nat (tp_pos tp mod tp_num tp) \<in> dom (sw_loops sw)" by (meson nth_mem subsetD)
  moreover have "((tp_pos tp + 1) mod tp_num tp + int i) mod tp_num tp = (tp_pos tp + int (Suc i)) mod tp_num tp" for i
    by (simp add: mod_add_left_eq add.assoc add.commute [of 1])
  ultimately show ?thesis
    using one inv
    by (simp add: server_on_accept_def server_ready_def submission_def turn_def flip: tp_def)
qed

lemma accept_many:
  assumes "server_ready sw" "\<forall>r \<in> set rs. is_conn r"
  defines "tp \<equiv> ts_pool (sw_server sw)"
  shows "\<exists>sw'. hand_over (server_on_accept nh) rs sw = Inr sw' \<and> server_ready sw' \<and>
    sw_submitted sw' = sw_submitted sw @ map (submission nh tp) (enumerate 0 rs) \<and> sw_closed_fds sw' = sw_closed_fds sw"
  using assms(1,2) unfolding tp_def
proof (induction rs arbitrary: sw)
  case (Cons r rs)
  then obtain fd peer where r: "r = AccFd fd peer" by (cases r) auto
  let ?tp = "ts_pool (sw_server sw)"
  obtain sw1 where sw1: "server_on_accept nh (int fd) (peer_address peer) 0 sw = Inr sw1" "server_ready sw1"
    "sw_submitted sw1 = sw_submitted sw @ [submission nh ?tp (0, AccFd fd peer)]" "sw_closed_fds sw1 = sw_closed_fds sw"
    "\<forall>i. turn (ts_pool (sw_server sw1)) i = turn ?tp (Suc i)"
    using accept_one [OF Cons.prems(1)] by blast
  obtain sw2 where sw2: "hand_over (server_on_accept nh) rs sw1 = Inr sw2" "server_ready sw2"
    "sw_submitted sw2 = sw_submitted sw1 @ map (submission nh (ts_pool (sw_server sw1))) (enumerate 0 rs)"
    "sw_closed_fds sw2 = sw_closed_fds sw1"
    using Cons.IH [OF sw1(2)] Cons.prems by auto
  have "submission nh (ts_pool (sw_server sw1)) (i, q) = submission nh ?tp (Suc i, q)" for i q
    using sw1(5) by (simp add: submission_def split: acc_result.splits)
  then have "map (submission nh (ts_pool (sw_server sw1))) (enumerate 0 rs) = map (submission nh ?tp) (enumerate (Suc 0) rs)"
    by (auto simp: enumerate_eq_zip zip_map1 map_Suc_upt [symmetric] simp del: upt_Suc)
  with sw1 sw2 r show ?case by simp
qed simp

lemma accept_idle:
  assumes "\<not> tp_running (ts_pool (sw_server sw))" "\<forall>r \<in> set rs. is_conn r"
  shows "\<exists>sw'. hand_over (server_on_accept nh) rs sw = Inr sw' \<and>
    sw_submitted sw' = sw_submitted sw \<and> sw_closed_fds sw' = sw_closed_fds sw @ map (\<lambda>r. case r of AccFd fd _ \<Rightarrow> int fd | _ \<Rightarrow> -1) rs"
  using assms
proof (induction rs arbitrary: sw)
  case (Cons r rs)
  then obtain fd peer where r: "r = AccFd fd peer" by (cases r) auto
  let ?sw = "sw\<lparr>sw_closed_fds := sw_closed_fds sw @ [int fd]\<rparr>"
  have "server_on_accept nh (int fd) (peer_address peer) 0 sw = Inr ?sw"
    using Cons.prems by (simp add: server_on_accept_def GetOneThread_def upd_server_def)
  with Cons.IH [of ?sw] Cons.prems r show ?case by auto
qed simp

section \<open>Properties\<close>

text \<open>
  C25. No accepted descriptor is lost: when the listening socket becomes ready, every
  connection that waits is accepted and, on a running server, submitted exactly once, in the
  order of arrival, to the io loops in turn, with its peer's port; before the pool is started or after
  it is closed, every accepted descriptor is closed instead and nothing is submitted.
\<close>

theorem server_accepts_all:
  assumes "\<forall>r \<in> set pre. is_conn r \<or> interrupted r"
  shows "(server_ready sw \<longrightarrow> (\<exists>sw'. accept_loop (server_on_accept nh) (pre @ AccError EAGAIN # rs) sw = Inr (sw', rs) \<and>
      sw_submitted sw' = sw_submitted sw @ map (submission nh (ts_pool (sw_server sw))) (enumerate 0 (filter is_conn pre)) \<and>
      sw_closed_fds sw' = sw_closed_fds sw \<and> server_ready sw')) \<and>
    (\<not> tp_running (ts_pool (sw_server sw)) \<longrightarrow>
      (\<exists>sw'. accept_loop (server_on_accept nh) (pre @ AccError EAGAIN # rs) sw = Inr (sw', rs) \<and>
      sw_submitted sw' = sw_submitted sw \<and>
      sw_closed_fds sw' = sw_closed_fds sw @ map (\<lambda>r. case r of AccFd fd _ \<Rightarrow> int fd | _ \<Rightarrow> -1) (filter is_conn pre)))"
proof -
  have loop: "accept_loop (server_on_accept nh) (pre @ AccError EAGAIN # rs) sw =
      rbind (hand_over (server_on_accept nh) (filter is_conn pre) sw) (\<lambda>st. Inr (st, rs))"
    by (cases "hand_over (server_on_accept nh) (filter is_conn pre) sw")
      (simp_all add: accept_loop_conns [OF assms] Acceptor_Accept_def)
  show ?thesis
    using accept_many [of sw "filter is_conn pre" nh] accept_idle [of sw "filter is_conn pre" nh] by (auto simp: loop)
qed

text \<open>A server with two io loops 10 and 11 and the base loop 9.\<close>

definition sample_server :: ServerWorld where
  "sample_server = \<lparr>sw_server = \<lparr>ts_listenaddr = INetAddress_new,
       ts_pool = sample_pool\<lparr>tp_running := True, tp_maxnum := 2, tp_threads := map (started (TimerOpt_new 0 (0, 0)) 1024) [10, 11], tp_oper_threads := [10, 11]\<rparr>,
       ts_acceptor_thread = \<lparr>et_timeropt = TimerOpt_new 0 (0, 0), et_maxevents = 1024, et_loop = Some 9, et_joinable = True\<rparr>, ts_baseloop = 9,
       ts_acceptor = snd (snd (Acceptor_new (\<lambda>_ _ _. 0) (Epoll_new 9 1024) True accept_chan 3 INetAddress_new)),
       ts_tcpst = {}, ts_closecallback = 0, ts_isheartbeat = False\<rparr>,
     sw_ep = Epoll_new 9 1024, sw_loops = new_loops (\<lambda>_. 4) (TimerOpt_new 0 (0, 0)) {9, 10, 11} Map.empty, sw_owner = \<lambda>_. None, sw_closed_fds = [], sw_submitted = []\<rparr>"

lemma sample_server_ready: "server_ready sample_server"
  by (simp add: sample_server_def server_ready_def pool_inv_def sample_pool_def SetSize_def EventLoopThreadPool_new_def)

theorem server_accepts_all_witness:
  "\<exists>sw'. accept_loop (server_on_accept sample_net) ([AccFd 5 zero_addr, AccError EINTR, AccFd 6 zero_addr] @ AccError EAGAIN # []) sample_server =
      Inr (sw', []) \<and>
    sw_submitted sw' = sw_submitted sample_server @ map (submission sample_net (ts_pool (sw_server sample_server)))
      (enumerate 0 (filter is_conn [AccFd 5 zero_addr, AccError EINTR, AccFd 6 zero_addr])) \<and>
    sw_closed_fds sw' = sw_closed_fds sample_server \<and> server_ready sw'"
proof -
  have "\<forall>r \<in> set [AccFd 5 zero_addr, AccError EINTR, AccFd 6 zero_addr]. is_conn r \<or> interrupted r"
    by (simp add: interrupted_def)
  from server_accepts_all [OF this, of sample_server sample_net "[]"] sample_server_ready show ?thesis by blast
qed

lemma TcpConnection_new_ok:
  assumes "add_ok" "0 \<le> fd" "fd \<notin> dom (ep_interest ep)"
  shows "\<exists>w. TcpConnection_new ep loop wheel add_ok c fd 1024 1024 = Inr w \<and> conn_ok w \<and> w_status w = kConnecting \<and>
    w_unsent w = [] \<and> buf_content (w_in w) = [] \<and> cw_id w = c \<and> ch_fd (w_channel w) = fd \<and> cw_loop w = loop \<and> cw_wheel w = wheel \<and>
    tc_shared (cw_conn w) \<and> \<not> ch_tied (w_channel w) \<and> ch_owner (w_channel w) = Some (ep_owner (cw_epoll w)) \<and>
    cw_epoll w = ep\<lparr>ep_interest := (ep_interest ep)(fd \<mapsto> (c, 0))\<rparr> \<and> cw_wire w = [] \<and> \<not> tc_close_requested (cw_conn w)"
proof -
  obtain b where b: "Buffer_new 1024 = Inr b" "buf_inv b" "buf_content b = []"
    using Buffer_new_ok [of 1024] by auto
  with assms show ?thesis
    by (auto simp: TcpConnection_new_def Channel_new_def AddChannel_def epoll_ctl_add_def conn_ok_def i32_def)
qed

lemma establish_ok:
  assumes "0 \<le> fd" "fd \<notin> dom (ep_interest ep)" "IsInThread tid loop"
    and "case wheel of None \<Rightarrow> True | Some wh \<Rightarrow> wheel_inv wh \<and> wh_objs wh ob = None"
  shows "\<exists>w. server_establish nh isheartbeat Inr RunsIt tid c ob fd peer_addr (ep, loop, wheel, True) tcpst =
      Inr (INetAddress_assign nh peer_addr INetAddress_new, w, insert c tcpst) \<and>
    conn_ok w \<and> w_status w = kConnecting \<and> w_unsent w = [] \<and> cw_wire w = [] \<and>
    w_interest w = (ep_interest ep)(fd \<mapsto> (c, kRead OR kClose)) \<and>
    tc_has_close_callback (cw_conn w) \<and> ch_tied (w_channel w) = isheartbeat \<and>
    (if isheartbeat \<and> wheel \<noteq> None then \<exists>wh'. cw_wheel w = Some wh' \<and> wheel_inv wh' \<and> tc_heartbeat (cw_conn w) = Some ob \<and>
       ticks_left wh' = (ticks_left (the wheel))(ob \<mapsto> length (slots (the wheel)))
     else cw_wheel w = wheel) \<and>
    tc_shared (cw_conn w) \<and> \<not> tc_close_requested (cw_conn w) \<and> cw_loop w = loop \<and> buf_content (w_in w) = []"
proof -
  obtain w0 where w0: "TcpConnection_new ep loop wheel True c fd 1024 1024 = Inr w0" "conn_ok w0" "w_status w0 = kConnecting"
    "w_unsent w0 = []" "cw_id w0 = c" "ch_fd (w_channel w0) = fd" "cw_loop w0 = loop" "cw_wheel w0 = wheel"
    "tc_shared (cw_conn w0)" "\<not> ch_tied (w_channel w0)" "ch_owner (w_channel w0) = Some (ep_owner (cw_epoll w0))"
    "cw_epoll w0 = ep\<lparr>ep_interest := (ep_interest ep)(fd \<mapsto> (c, 0))\<rparr>" "cw_wire w0 = []" "\<not> tc_close_requested (cw_conn w0)" "buf_content (w_in w0) = []"
    using TcpConnection_new_ok [OF TrueI assms(1,2)] by blast
  define w1 where "w1 = (if isheartbeat then upd_conn (tc_channel_update (Tie c)) w0 else w0)"
  obtain wh' hb where w2: "(if isheartbeat then SaveLifeMechanism ob w0 else Inr w0) =
      Inr (upd_conn (tc_heartbeat_update (\<lambda>_. hb)) (w1\<lparr>cw_wheel := wh'\<rparr>))"
    and wh': "if isheartbeat \<and> wheel \<noteq> None then \<exists>wh''. wh' = Some wh'' \<and> wheel_inv wh'' \<and> hb = Some ob \<and>
       ticks_left wh'' = (ticks_left (the wheel))(ob \<mapsto> length (slots (the wheel)))
     else wh' = wheel"
  proof (cases "isheartbeat \<and> wheel \<noteq> None")
    case True
    then obtain wh where wh: "wheel = Some wh" by auto
    from new_heartbeat_ok [of wh ob c] assms(4) obtain wh2 where
      "new_heartbeat True ob c wh = Inr wh2" "wheel_inv wh2" "ticks_left wh2 = (ticks_left wh)(ob \<mapsto> length (slots wh))"
      unfolding wh by auto
    with True wh w0 show ?thesis
      by (intro that [of "Some ob" "Some wh2"]) (simp_all add: SaveLifeMechanism_def w1_def Let_def Tie_def upd_conn_def)
  next
    case False
    with w0 show ?thesis
      by (intro that [of "tc_heartbeat (cw_conn w0)" wheel])
        (auto simp: SaveLifeMechanism_def w1_def Let_def Tie_def upd_conn_def split: option.splits)
  qed
  let ?w2 = "upd_conn (tc_heartbeat_update (\<lambda>_. hb)) (w1\<lparr>cw_wheel := wh'\<rparr>)"
  let ?w = "Activate tid (Tcp_SetCloseCallback ?w2)"
  have "server_establish nh isheartbeat Inr RunsIt tid c ob fd peer_addr (ep, loop, wheel, True) tcpst =
      Inr (INetAddress_assign nh peer_addr INetAddress_new, ?w, insert c tcpst)"
    using w0(1) w2 by (simp add: server_establish_def Let_def)
  moreover have "?w = set_active (kRead OR kClose) (Tcp_SetCloseCallback ?w2)"
    using w0 assms(3) by (simp add: Activate_def ActivateInThread_def Tcp_SetCloseCallback_def w1_def Tie_def)
  moreover have "ch_owner (w_channel (Tcp_SetCloseCallback ?w2)) = Some (ep_owner (cw_epoll (Tcp_SetCloseCallback ?w2)))"
    "w_interest (Tcp_SetCloseCallback ?w2) (ch_fd (w_channel (Tcp_SetCloseCallback ?w2))) \<noteq> None"
    using w0 by (simp_all add: Tcp_SetCloseCallback_def w1_def Tie_def)
  ultimately show ?thesis
    using w0 wh' by (simp add: set_active_registered Tcp_SetCloseCallback_def w1_def Tie_def conn_ok_def)
qed

text \<open>The wait for the base loop is the last thing that can fail when the application's callback does not.\<close>

lemma establish_fate:
  "server_establish nh isheartbeat callback RunsIt tid c ob fd peer_addr io tcpst = Inr x \<Longrightarrow>
   server_establish nh isheartbeat callback fate tid c ob fd peer_addr io tcpst = rbind (await fate) (\<lambda>_. Inr x)"
  by (cases fate; cases io) (auto simp: server_establish_def Let_def rbind_Inr_iff split: if_splits)

text \<open>
  C26. A connection the server has established is ready to serve. If the base loop runs the mission that inserts the
  connection and the application's
  callback only installs its handler, the connection satisfies its invariant, waits for input
  and for the peer's end on its descriptor and nothing else is registered or changed in the
  poller, has nothing to send, is in the server's set until it is erased, and
  tells the server when it closes; with a heartbeat the channel is tied to the connection
  and the wheel gives the new object its full number of ticks. If the base loop ends before it runs the
  mission, the io thread waits for ever; if the base loop is gone, the call is undefined behaviour.
\<close>

theorem server_establish_ready:
  assumes "0 \<le> fd" "fd \<notin> dom (ep_interest ep)" "IsInThread tid loop"
    and "case wheel of None \<Rightarrow> True | Some wh \<Rightarrow> wheel_inv wh \<and> wh_objs wh ob = None"
  shows "(\<exists>w. server_establish nh isheartbeat Inr RunsIt tid c ob fd peer_addr (ep, loop, wheel, True) tcpst =
      Inr (INetAddress_assign nh peer_addr INetAddress_new, w, insert c tcpst) \<and>
    conn_ok w \<and> w_status w = kConnecting \<and> w_unsent w = [] \<and> cw_wire w = [] \<and>
    w_interest w = (ep_interest ep)(fd \<mapsto> (c, kRead OR kClose)) \<and>
    tc_has_close_callback (cw_conn w) \<and> ch_tied (w_channel w) = isheartbeat \<and>
    (if isheartbeat \<and> wheel \<noteq> None then \<exists>wh'. cw_wheel w = Some wh' \<and> wheel_inv wh' \<and> tc_heartbeat (cw_conn w) = Some ob \<and>
       ticks_left wh' = (ticks_left (the wheel))(ob \<mapsto> length (slots (the wheel)))
     else cw_wheel w = wheel)) \<and>
    server_establish nh isheartbeat Inr EndsFirst tid c ob fd peer_addr (ep, loop, wheel, True) tcpst = Inl Blocked \<and>
    server_establish nh isheartbeat Inr AlreadyGone tid c ob fd peer_addr (ep, loop, wheel, True) tcpst = Inl UB"
proof -
  note est = establish_ok [OF assms, of nh isheartbeat c peer_addr tcpst]
  then obtain x where "server_establish nh isheartbeat Inr RunsIt tid c ob fd peer_addr (ep, loop, wheel, True) tcpst = Inr x" by blast
  from establish_fate [OF this] have "server_establish nh isheartbeat Inr EndsFirst tid c ob fd peer_addr (ep, loop, wheel, True) tcpst = Inl Blocked"
    "server_establish nh isheartbeat Inr AlreadyGone tid c ob fd peer_addr (ep, loop, wheel, True) tcpst = Inl UB" by simp_all
  with est show ?thesis by blast
qed

theorem server_establish_ready_witness:
  "(\<exists>w. server_establish sample_net True Inr RunsIt 7 2 1 5 sample_addr (Epoll_new 7 1024, EventLoop_new 7 3 2, Some sample_wheel, True) {} =
      Inr (INetAddress_assign sample_net sample_addr INetAddress_new, w, insert 2 {}) \<and>
    conn_ok w \<and> w_status w = kConnecting \<and> w_unsent w = [] \<and> cw_wire w = [] \<and>
    w_interest w = (ep_interest (Epoll_new 7 1024))(5 \<mapsto> (2, kRead OR kClose)) \<and>
    tc_has_close_callback (cw_conn w) \<and> ch_tied (w_channel w) = True \<and>
    (if True \<and> Some sample_wheel \<noteq> None then \<exists>wh'. cw_wheel w = Some wh' \<and> wheel_inv wh' \<and> tc_heartbeat (cw_conn w) = Some 1 \<and>
       ticks_left wh' = (ticks_left (the (Some sample_wheel)))(1 \<mapsto> length (slots (the (Some sample_wheel))))
     else cw_wheel w = Some sample_wheel)) \<and>
    server_establish sample_net True Inr EndsFirst 7 2 1 5 sample_addr (Epoll_new 7 1024, EventLoop_new 7 3 2, Some sample_wheel, True) {} = Inl Blocked \<and>
    server_establish sample_net True Inr AlreadyGone 7 2 1 5 sample_addr (Epoll_new 7 1024, EventLoop_new 7 3 2, Some sample_wheel, True) {} = Inl UB"
  by (rule server_establish_ready)
    (simp_all add: Epoll_new_def IsInThread_def EventLoop_new_def sample_wheel_inv, simp add: sample_wheel_def)

section \<open>The life of a server\<close>

abbreviation base_thread :: "TimerOpt \<Rightarrow> int \<Rightarrow> nat \<Rightarrow> EventLoopThread" where
  "base_thread opt me base \<equiv> \<lparr>et_timeropt = opt, et_maxevents = me, et_loop = Some base, et_joinable = True\<rparr>"

lemma TcpServer_new_ok:
  assumes "se_add_ok env" "tid \<noteq> base"
  shows "\<exists>sw. TcpServer_new env tid base listenaddr timeropt maxevents loops = Inr sw \<and>
    sw_loops sw = new_loops (se_eventfd env) timeropt {base} loops \<and> sw_owner sw = (\<lambda>_. None) \<and>
    sw_closed_fds sw = [] \<and> sw_submitted sw = [] \<and> ts_tcpst (sw_server sw) = {} \<and>
    ts_pool (sw_server sw) = SetSize 1 (EventLoopThreadPool_new timeropt maxevents) \<and> ts_baseloop (sw_server sw) = base \<and>
    ts_acceptor_thread (sw_server sw) = base_thread timeropt maxevents base \<and>
    ac_socket (ts_acceptor (sw_server sw)) = \<lparr>so_fd = se_socket env\<rparr> \<and>
    ch_owner (ac_channel (ts_acceptor (sw_server sw))) = Some base \<and>
    ch_fd (ac_channel (ts_acceptor (sw_server sw))) = se_socket env \<and>
    ch_read_callback (ac_channel (ts_acceptor (sw_server sw))) = Some CbAcceptLoop \<and>
    ep_owner (sw_ep sw) = base \<and> ep_interest (sw_ep sw) = [se_socket env \<mapsto> (accept_chan, 0)]"
proof -
  have "loops(base \<mapsto> EventLoop_new base (se_eventfd env base) (to_heartbeat_num timeropt)) = new_loops (se_eventfd env) timeropt {base} loops"
    using new_loops_simps(3) [of "se_eventfd env" timeropt "{}" loops base] by simp
  with assms show ?thesis
    by (simp add: TcpServer_new_def Let_def EventLoopThread_Start_def thread_begin_def EventLoopThread_new_def Acceptor_new_def
        Channel_new_def AddChannel_def epoll_ctl_add_def Epoll_new_def CreateNonBlockSocket_def Socket_new_def Socket_Fd_def
        Server_SetNewconnectionCallback_def SetSubThreadNum_def Acceptor_SetNewconnectionCallback_def SetReadCallback_def
        elsewhere_def wait_for_def upd_server_def)
qed

text \<open>Closing a server whose base loop is \<open>base\<close> and whose pool runs the loops \<open>ls\<close>: it waits for ever for a thread that has not entered its loop.\<close>

lemma TcpServer_Close_started:
  assumes pool: "tp_threads (ts_pool (sw_server sw)) = map (started opt me) ls" "tp_oper_threads (ts_pool (sw_server sw)) = ls" "distinct ls"
    and base: "ts_baseloop (sw_server sw) = base" "ts_acceptor_thread (sw_server sw) = base_thread opt' me' base" "base \<notin> set ls"
    and dom: "insert base (set ls) \<subseteq> dom (sw_loops sw)"
  shows "TcpServer_Close sw = (if \<forall>lp \<in> insert base (set ls). el_looping (the (sw_loops sw lp))
    then Inr (upd_server (\<lambda>ts. ts\<lparr>ts_acceptor_thread := EventLoopThread_new opt' me',
        ts_pool := (ts_pool ts)\<lparr>tp_running := False, tp_threads := map (\<lambda>_. Some (EventLoopThread_new opt me)) ls\<rparr>\<rparr>)
      (sw\<lparr>sw_loops := sw_loops sw |` (- insert base (set ls))\<rparr>))
    else Inl Blocked)"
proof -
  obtain el where el: "sw_loops sw base = Some el" using dom by auto
  have join: "EventLoopThread_Join (base_thread opt' me' base, (sw_loops sw)(base \<mapsto> StopLoop True el)) =
      (if el_looping el then Inr (EventLoopThread_new opt' me', (sw_loops sw)(base := None)) else Inl Blocked)"
    by (simp add: EventLoopThread_Join_def thread_end_def loop_returns_def StopLoop_def WakeUp_def set_quit_def EventLoopThread_new_def)
  have "set ls \<subseteq> dom ((sw_loops sw)(base := None))" using dom base(3) by auto
  note close = Pool_Close_started [OF pool(1,2) this pool(3)]
  have "(\<forall>lp \<in> set ls. el_looping (the (((sw_loops sw)(base := None)) lp))) \<longleftrightarrow> (\<forall>lp \<in> set ls. el_looping (the (sw_loops sw lp)))"
    using base(3) by auto
  moreover have "((sw_loops sw)(base := None)) |` (- set ls) = sw_loops sw |` (- insert base (set ls))"
    by (auto simp: restrict_map_def fun_eq_iff)
  ultimately show ?thesis
    using el base(1,2) join close by (simp add: TcpServer_Close_def stop_loop_def upd_server_def Let_def)
qed

lemma TcpServer_destroy_started:
  assumes pool: "tp_threads (ts_pool (sw_server sw)) = map (started opt me) ls" "tp_oper_threads (ts_pool (sw_server sw)) = ls" "distinct ls"
    and base: "ts_baseloop (sw_server sw) = base" "ts_acceptor_thread (sw_server sw) = base_thread opt' me' base" "base \<notin> set ls"
    and dom: "insert base (set ls) \<subseteq> dom (sw_loops sw)"
    and sock: "ac_socket (ts_acceptor (sw_server sw)) = \<lparr>so_fd = fd\<rparr>" "0 \<le> fd" "sw_closed_fds sw = []"
  shows "TcpServer_destroy sw = (if \<forall>lp \<in> insert base (set ls). el_looping (the (sw_loops sw lp))
    then rbind (destroy_conns (ts_tcpst (sw_server sw)) (sw_owner sw) (sw_loops sw |` (- insert base (set ls))))
      (\<lambda>_. Inr (sw_loops sw |` (- insert base (set ls)), [fd]))
    else Inl Blocked)"
proof -
  have "destroy_threads (map (\<lambda>_. Some (EventLoopThread_new opt me)) ls) l = Inr l" for l
    by (intro destroy_idle) (auto simp: idle_thread_def EventLoopThread_new_def)
  moreover have "EventLoopThread_destroy (EventLoopThread_new opt' me', l) = Inr l" for l
    by (simp add: EventLoopThread_destroy_def EventLoopThread_Join_def EventLoopThread_new_def)
  ultimately show ?thesis
    unfolding TcpServer_destroy_def TcpServer_Close_started [OF pool base dom]
    using sock by (simp add: Socket_destroy_def Let_def)
qed

text \<open>Constructed, given a number of io threads and started, a server listens.\<close>

lemma server_up:
  fixes lps :: "nat \<Rightarrow> nat"
  assumes "se_add_ok env" "tid \<noteq> base" "se_listen env (se_socket env) 1024 = 0" "1 \<le> num" "num < 2147483648"
  defines "ls \<equiv> map lps [0..<nat num]"
  shows "\<exists>sw sw' opt. TcpServer_new env tid base listenaddr timeropt maxevents loops = Inr sw \<and>
    TcpServer_Start env tid lps (SetSubThreadNum num sw) = Inr sw' \<and> server_ready sw' \<and>
    IsListening (ts_acceptor (sw_server sw')) \<and>
    ch_read_callback (ac_channel (ts_acceptor (sw_server sw'))) = Some CbAcceptLoop \<and>
    ep_interest (sw_ep sw') = [se_socket env \<mapsto> (accept_chan, kRead)] \<and>
    tp_threads (ts_pool (sw_server sw')) = map (started opt maxevents) ls \<and> tp_oper_threads (ts_pool (sw_server sw')) = ls \<and>
    ts_baseloop (sw_server sw') = base \<and> ts_acceptor_thread (sw_server sw') = base_thread timeropt maxevents base \<and>
    sw_loops sw' = new_loops (se_eventfd env) opt (set ls) (new_loops (se_eventfd env) timeropt {base} loops) \<and>
    ac_socket (ts_acceptor (sw_server sw')) = \<lparr>so_fd = se_socket env\<rparr> \<and> sw_closed_fds sw' = [] \<and>
    ts_tcpst (sw_server sw') = {} \<and> sw_owner sw' = (\<lambda>_. None)"
proof -
  obtain sw where new: "TcpServer_new env tid base listenaddr timeropt maxevents loops = Inr sw"
    and sw: "sw_loops sw = new_loops (se_eventfd env) timeropt {base} loops" "sw_owner sw = (\<lambda>_. None)" "sw_closed_fds sw = []"
    "ts_tcpst (sw_server sw) = {}"
    "ts_pool (sw_server sw) = SetSize 1 (EventLoopThreadPool_new timeropt maxevents)" "ts_baseloop (sw_server sw) = base"
    "ts_acceptor_thread (sw_server sw) = base_thread timeropt maxevents base"
    "ac_socket (ts_acceptor (sw_server sw)) = \<lparr>so_fd = se_socket env\<rparr>"
    "ch_owner (ac_channel (ts_acceptor (sw_server sw))) = Some base"
    "ch_fd (ac_channel (ts_acceptor (sw_server sw))) = se_socket env"
    "ch_read_callback (ac_channel (ts_acceptor (sw_server sw))) = Some CbAcceptLoop"
    "ep_owner (sw_ep sw) = base" "ep_interest (sw_ep sw) = [se_socket env \<mapsto> (accept_chan, 0)]"
    using TcpServer_new_ok [OF assms(1,2)] by blast
  define tp where "tp = SetSize num (SetSize 1 (EventLoopThreadPool_new timeropt maxevents))"
  have tp: "pool_inv tp" "pool_idle tp" "tp_num tp = num" "tp_maxevents tp = maxevents"
    using assms(4,5) pool_inv_new by (simp_all add: tp_def pool_inv_SetSize) (simp_all add: SetSize_def EventLoopThreadPool_new_def)
  let ?b = "new_loops (se_eventfd env) timeropt {base} loops" and ?opt = "tp_timeropt tp"
  have ls: "set ls = lps ` {..<nat num}" by (auto simp: ls_def lessThan_atLeast0)
  obtain tp' where st: "Pool_Start (se_eventfd env) lps (tp, ?b) = Inr (tp', new_loops (se_eventfd env) ?opt (set ls) ?b)"
    and tp': "tp_threads tp' = map (started ?opt maxevents) ls" "tp_oper_threads tp' = ls"
    using Pool_Start_eq [OF tp(2), of "se_eventfd env" lps ?b] ls tp(3,4) by (simp add: ls_def del: map_map)
  have inv: "pool_inv tp'" "tp_running tp'" using pool_inv_Start [OF tp(1,2) st] by simp_all
  let ?ac = "(ts_acceptor (sw_server sw))\<lparr>ac_listen_check := True,
      ac_channel := (ac_channel (ts_acceptor (sw_server sw)))\<lparr>ch_events := kRead\<rparr>\<rparr>"
  let ?sw = "sw\<lparr>sw_server := (sw_server sw)\<lparr>ts_pool := tp', ts_acceptor := ?ac\<rparr>,
      sw_ep := (sw_ep sw)\<lparr>ep_interest := [se_socket env \<mapsto> (accept_chan, kRead)]\<rparr>,
      sw_loops := new_loops (se_eventfd env) ?opt (set ls) ?b\<rparr>"
  have "TcpServer_Start env tid lps (SetSubThreadNum num sw) = Inr ?sw"
    using assms(2,3) sw st
    by (simp add: TcpServer_Start_def SetSubThreadNum_def tp_def upd_server_def Acceptor_Listen_def Socket_Listen_def
        wait_for_def SetActive_def elsewhere_def UpdateChannel_def epoll_ctl_mod_def Let_def)
  with new inv tp' sw show ?thesis
    by (intro exI [of _ sw] exI [of _ ?sw] exI [of _ ?opt]) (auto simp: server_ready_def IsListening_def)
qed

text \<open>
  Destroying it when the threads in \<open>E\<close> have entered their loops: all loops end and the socket is closed once; a
  thread that has not entered its loop is waited for in vain; and a connection the server still holds is
  removed from a loop that is gone.
\<close>

lemma server_down:
  assumes "tp_threads (ts_pool (sw_server sw)) = map (started opt me) ls" "tp_oper_threads (ts_pool (sw_server sw)) = ls" "distinct ls"
    "ts_baseloop (sw_server sw) = base" "ts_acceptor_thread (sw_server sw) = base_thread opt' me' base" "base \<notin> set ls"
    "sw_loops sw = new_loops evfd opt (set ls) (new_loops evfd opt' {base} loops)"
    "ac_socket (ts_acceptor (sw_server sw)) = \<lparr>so_fd = fd\<rparr>" "0 \<le> fd" "sw_closed_fds sw = []"
  shows "TcpServer_destroy (run_threads E sw) = (if insert base (set ls) \<subseteq> E
    then rbind (destroy_conns (ts_tcpst (sw_server sw)) (sw_owner sw) (enter_loops E loops |` (- insert base (set ls))))
      (\<lambda>_. Inr (enter_loops E loops |` (- insert base (set ls)), [fd]))
    else Inl Blocked)"
proof -
  let ?sw = "run_threads E sw"
  have same: "sw_server ?sw = sw_server sw" "sw_owner ?sw = sw_owner sw" "sw_closed_fds ?sw = sw_closed_fds sw"
    "sw_loops ?sw = enter_loops E (sw_loops sw)" by (simp_all add: run_threads_def)
  have "el_looping (the (sw_loops ?sw lp)) \<longleftrightarrow> lp \<in> E" if "lp \<in> insert base (set ls)" for lp
    using that assms(6,7) unfolding same by (auto simp: enter_loops_def new_loops_def EventLoop_new_def Loop_enter_def)
  then have run: "(\<forall>lp \<in> insert base (set ls). el_looping (the (sw_loops ?sw lp))) \<longleftrightarrow> insert base (set ls) \<subseteq> E" by blast
  have rest: "sw_loops ?sw |` (- insert base (set ls)) = enter_loops E loops |` (- insert base (set ls))"
    using assms(7) unfolding same by (auto simp: restrict_map_def enter_loops_def new_loops_def fun_eq_iff)
  have "insert base (set ls) \<subseteq> dom (sw_loops ?sw)" using assms(7) unfolding same by auto
  then show ?thesis
    using TcpServer_destroy_started [of ?sw opt me ls base opt' me' fd] assms(1-6,8-10) unfolding same(1-3) run rest by blast
qed

lemma destroy_conns_gone: "c \<in> tcpst \<Longrightarrow> owner c = Some lp \<Longrightarrow> loops lp = None \<Longrightarrow> destroy_conns tcpst owner loops = Inl UB"
  by (force simp: destroy_conns_def)

lemma server_cycle:
  assumes "se_add_ok env" "tid \<noteq> base" "0 \<le> se_socket env" "se_listen env (se_socket env) 1024 = 0"
    "1 \<le> num" "num < 2147483648" "inj_on lps {..<nat num}" "base \<notin> lps ` {..<nat num}"
  shows "\<exists>sw sw'. TcpServer_new env tid base listenaddr timeropt maxevents loops = Inr sw \<and>
    TcpServer_Start env tid lps (SetSubThreadNum num sw) = Inr sw' \<and> server_ready sw' \<and>
    IsListening (ts_acceptor (sw_server sw')) \<and>
    ch_read_callback (ac_channel (ts_acceptor (sw_server sw'))) = Some CbAcceptLoop \<and>
    ep_interest (sw_ep sw') = [se_socket env \<mapsto> (accept_chan, kRead)] \<and>
    GetAllThread (ts_pool (sw_server sw')) = map lps [0..<nat num] \<and>
    (\<forall>E. TcpServer_destroy (run_threads E sw') = (if insert base (lps ` {..<nat num}) \<subseteq> E
      then Inr (enter_loops E loops |` (- insert base (lps ` {..<nat num})), [se_socket env]) else Inl Blocked)) \<and>
    (\<forall>E c. \<forall>lp \<in> lps ` {..<nat num}. insert base (lps ` {..<nat num}) \<subseteq> E \<longrightarrow>
      TcpServer_destroy (run_threads E (server_insert c lp sw')) = Inl UB)"
proof -
  let ?ls = "map lps [0..<nat num]"
  have ls: "set ?ls = lps ` {..<nat num}" "distinct ?ls" "base \<notin> set ?ls"
    using assms(7,8) by (auto simp: lessThan_atLeast0 distinct_map)
  obtain sw sw' opt where up: "TcpServer_new env tid base listenaddr timeropt maxevents loops = Inr sw"
    "TcpServer_Start env tid lps (SetSubThreadNum num sw) = Inr sw'" "server_ready sw'" "IsListening (ts_acceptor (sw_server sw'))"
    "ch_read_callback (ac_channel (ts_acceptor (sw_server sw'))) = Some CbAcceptLoop"
    "ep_interest (sw_ep sw') = [se_socket env \<mapsto> (accept_chan, kRead)]"
    and d: "tp_threads (ts_pool (sw_server sw')) = map (started opt maxevents) ?ls" "tp_oper_threads (ts_pool (sw_server sw')) = ?ls"
    "ts_baseloop (sw_server sw') = base" "ts_acceptor_thread (sw_server sw') = base_thread timeropt maxevents base"
    "sw_loops sw' = new_loops (se_eventfd env) opt (set ?ls) (new_loops (se_eventfd env) timeropt {base} loops)"
    "ac_socket (ts_acceptor (sw_server sw')) = \<lparr>so_fd = se_socket env\<rparr>" "sw_closed_fds sw' = []"
    "ts_tcpst (sw_server sw') = {}" "sw_owner sw' = (\<lambda>_. None)"
    using server_up [OF assms(1,2,4-6)] by blast
  note down = server_down [OF d(1,2) ls(2) d(3,4) ls(3) d(5,6) assms(3) d(7)]
  have empty: "TcpServer_destroy (run_threads E sw') = (if insert base (lps ` {..<nat num}) \<subseteq> E
      then Inr (enter_loops E loops |` (- insert base (lps ` {..<nat num})), [se_socket env]) else Inl Blocked)" for E
    using down [of E] unfolding ls(1) d(8,9) by (simp add: destroy_conns_def)
  have full: "TcpServer_destroy (run_threads E (server_insert c lp sw')) = Inl UB"
    if "lp \<in> lps ` {..<nat num}" "insert base (lps ` {..<nat num}) \<subseteq> E" for E c lp
  proof -
    let ?sw = "server_insert c lp sw'"
    have "TcpServer_destroy (run_threads E ?sw) = (if insert base (set ?ls) \<subseteq> E
      then rbind (destroy_conns (ts_tcpst (sw_server ?sw)) (sw_owner ?sw) (enter_loops E loops |` (- insert base (set ?ls))))
        (\<lambda>_. Inr (enter_loops E loops |` (- insert base (set ?ls)), [se_socket env]))
      else Inl Blocked)"
      by (rule server_down [where opt = opt and me = maxevents and opt' = timeropt and me' = maxevents])
        (use d ls assms(3) in \<open>simp_all add: server_insert_def\<close>)
    moreover have "destroy_conns (ts_tcpst (sw_server ?sw)) (sw_owner ?sw) (enter_loops E loops |` (- insert base (set ?ls))) = Inl UB"
      by (rule destroy_conns_gone [of c _ _ lp]) (use that(1) ls(1) in \<open>simp_all add: server_insert_def restrict_map_def\<close>)
    ultimately show ?thesis using that(2) ls(1) by simp
  qed
  from up d(2) empty full show ?thesis by (auto simp: GetAllThread_def)
qed

text \<open>
  C39. Closing a server that was constructed is fatal the second time: \<open>Close\<close> ends the base
  loop but keeps its pointer, so that a further \<open>Close\<close>, and the destructor after an explicit
  \<open>Close\<close>, calls \<open>StopLoop\<close> on a loop that does not exist any more.
\<close>

theorem server_close_twice:
  assumes "se_add_ok env" "tid \<noteq> base" "base \<in> E"
  shows "\<exists>sw sw'. TcpServer_new env tid base listenaddr timeropt maxevents loops = Inr sw \<and>
    TcpServer_Close (run_threads E sw) = Inr sw' \<and> TcpServer_Close sw' = Inl UB \<and> TcpServer_destroy sw' = Inl UB"
proof -
  obtain sw where sw: "TcpServer_new env tid base listenaddr timeropt maxevents loops = Inr sw"
    "sw_loops sw = new_loops (se_eventfd env) timeropt {base} loops" "ts_pool (sw_server sw) = SetSize 1 (EventLoopThreadPool_new timeropt maxevents)"
    "ts_baseloop (sw_server sw) = base" "ts_acceptor_thread (sw_server sw) = base_thread timeropt maxevents base"
    using TcpServer_new_ok [OF assms(1,2)] by blast
  let ?sw = "run_threads E sw"
  have s: "sw_server ?sw = sw_server sw" "sw_loops ?sw = enter_loops E (sw_loops sw)" by (simp_all add: run_threads_def)
  have "el_looping (the (sw_loops ?sw base))" unfolding s sw(2) using assms(3) by (simp add: entered_new)
  moreover have "insert base (set []) \<subseteq> dom (sw_loops ?sw)" unfolding s sw(2) by simp
  moreover have "tp_threads (ts_pool (sw_server ?sw)) = map (started timeropt maxevents) []" "tp_oper_threads (ts_pool (sw_server ?sw)) = []"
    unfolding s sw(3) by (simp_all add: SetSize_def EventLoopThreadPool_new_def)
  ultimately have "\<exists>sw'. TcpServer_Close ?sw = Inr sw' \<and> ts_baseloop (sw_server sw') = base \<and> sw_loops sw' base = None"
    using TcpServer_Close_started [of ?sw timeropt maxevents "[]" base timeropt maxevents] sw(4,5) s(1) by simp
  then obtain sw' where "TcpServer_Close ?sw = Inr sw'" "ts_baseloop (sw_server sw') = base" "sw_loops sw' base = None" by blast
  moreover from this have "TcpServer_Close sw' = Inl UB" by (simp add: TcpServer_Close_def stop_loop_def)
  ultimately show ?thesis using sw(1) by (auto simp: TcpServer_destroy_def)
qed

definition sample_env :: server_env where
  "sample_env = \<lparr>se_socket = 3, se_bind = \<lambda>_ _ _. 0, se_listen = \<lambda>_ _. 0, se_add_ok = True, se_host = sample_net, se_eventfd = \<lambda>_. 4\<rparr>"

theorem server_close_twice_witness:
  "\<exists>sw sw'. TcpServer_new sample_env 1 9 INetAddress_new (TimerOpt_new 0 (0, 0)) 1024 Map.empty = Inr sw \<and>
    TcpServer_Close (run_threads {9} sw) = Inr sw' \<and> TcpServer_Close sw' = Inl UB \<and> TcpServer_destroy sw' = Inl UB"
  by (rule server_close_twice) (simp_all add: sample_env_def)

end
