(* ===== verification/KV_Endpoint.thy ===== *)
theory KV_Endpoint
  imports KV_Server Tcp_Server
begin

text \<open>
  The key-value server put together (\<^verbatim>\<open>src/kv/kvserver.cpp\<close>): the message handler on the
  connections of \<open>TcpServer\<close>. \<open>Write\<close> and \<open>Close\<close> of the handler are those of \<open>TcpConnection\<close>, and its
  buffer is the connection's input buffer, which neither of them touches.
\<close>

section \<open>The handler on a connection\<close>

definition kv_onmsg :: "Host \<Rightarrow> nat \<Rightarrow> KVService on_msg" where
  "kv_onmsg hw caller st = (case st of (sv, w) \<Rightarrow>
     (case on_message hw (Tcp_Write caller) (\<lambda>w. Inr (Tcp_Close caller w)) (sv, w, w_in w) of
        None \<Rightarrow> None
      | Some (Inl e) \<Rightarrow> Some (Inl e)
      | Some (Inr (sv, w, b)) \<Rightarrow> Some (Inr (sv, upd_conn (tc_read_buffer_update (\<lambda>_. b)) w))))"

text \<open>
  The constructor: \<open>lps\<close> are the loops of the io threads. The callback for new connections
  installs the handler above and does nothing else to a connection (\<open>kv_newconnection\<close>).
\<close>

definition kv_newconnection :: "ConnWorld \<Rightarrow> ConnWorld res" where
  "kv_newconnection w = Inr w"

definition KVServer_new ::
  "server_env \<Rightarrow> nat \<Rightarrow> nat \<Rightarrow> (nat \<Rightarrow> nat) \<Rightarrow> INetAddress \<Rightarrow> int \<Rightarrow> TimerOpt \<Rightarrow> loops \<Rightarrow> ServerWorld res" where
  "KVServer_new env tid base lps listenaddr subthreadnum timeropt loops =
     rbind (TcpServer_new env tid base listenaddr timeropt 1024 loops) (\<lambda>sw.
     rbind (Server_SetNewconnectionCallback tid (SetSubThreadNum subthreadnum sw)) (TcpServer_Start env tid lps))"

definition KVServer_destroy :: "ServerWorld \<Rightarrow> (loops \<times> int list) res" where
  "KVServer_destroy sw = TcpServer_destroy sw"

text \<open>Successive reads of the chunks in which the kernel delivers the input.\<close>

primrec kv_reads :: "Host \<Rightarrow> nat \<Rightarrow> bytes list \<Rightarrow> KVService on_msg" where
  "kv_reads hw caller [] st = Some (Inr st)"
| "kv_reads hw caller (bs # bss) st = (case Tcp_Read caller (kv_onmsg hw caller) (RdBytes bs 0) st of
     None \<Rightarrow> None | Some (Inl e) \<Rightarrow> Some (Inl e) | Some (Inr st) \<Rightarrow> kv_reads hw caller bss st)"

section \<open>A healthy socket\<close>

text \<open>The kernel may split and postpone writes but reports no fatal error.\<close>

definition healthy :: "ConnWorld \<Rightarrow> bool" where
  "healthy w \<longleftrightarrow> (\<forall>e. WrError e \<in> set (cw_writes w) \<longrightarrow> transient e)"

lemma transient_EAGAIN [simp]: "transient EAGAIN"
  by (simp add: transient_def)

lemma healthy_accepts:
  assumes "conn_ok w" "w_status w = kConnecting" "healthy w"
  shows "\<not> refuses w"
proof -
  have "0 \<le> tc_socket (cw_conn w)" using assms by (auto simp: conn_ok_def)
  with assms(2,3) show ?thesis
    by (auto simp: refuses_def healthy_def next_write_def split: list.splits wr_result.splits)
qed

lemma watch_output_keeps [simp]:
  "w_status (watch_output w) = w_status w" "cw_writes (watch_output w) = cw_writes w"
  "tc_close_requested (cw_conn (watch_output w)) = tc_close_requested (cw_conn w)"
  by (auto simp: watch_output_def set_active_def upd_conn_def split: sum.splits prod.splits)

lemma WriteInThread_keeps:
  assumes "conn_ok w" "w_status w = kConnecting" "healthy w" "WriteInThread m w = Inr w'"
  shows "w_status w' = kConnecting \<and> healthy w' \<and> tc_close_requested (cw_conn w') = tc_close_requested (cw_conn w)"
proof -
  have sock: "0 \<le> tc_socket (cw_conn w)" using assms by (auto simp: conn_ok_def)
  obtain r ws where nw: "next_write w = (r, w\<lparr>cw_writes := ws\<rparr>)" "set ws \<subseteq> set (cw_writes w)"
    using next_write_open [OF sock] by blast
  have tr: "transient e" if "r = WrError e" for e
    using that nw(1) assms(3) sock
    by (cases "cw_writes w") (auto simp: next_write_def healthy_def split: wr_result.splits)
  have "w_status w' = kConnecting \<and> set (cw_writes w') \<subseteq> set (cw_writes w) \<and>
      tc_close_requested (cw_conn w') = tc_close_requested (cw_conn w)"
    using assms(2,4) nw tr
    by (cases r) (auto simp: WriteInThread_eq put_out_def Let_def rbind_Inr_iff split: if_splits)
  then show ?thesis using assms(3) by (auto simp: healthy_def)
qed

text \<open>A connection that can serve: what the handler relies on and every step keeps.\<close>

definition serving :: "nat \<Rightarrow> ConnWorld \<Rightarrow> bool" where
  "serving caller w \<longleftrightarrow> conn_ok w \<and> w_status w = kConnecting \<and> healthy w \<and> IsInThread caller (cw_loop w) \<and>
     tc_shared (cw_conn w) \<and> \<not> tc_close_requested (cw_conn w) \<and>
     (case cw_wheel w of None \<Rightarrow> True | Some wh \<Rightarrow> wheel_inv wh)"

lemma Tcp_Write_serving:
  assumes "serving caller w" "length (w_unsent w) + length m < 2147483648"
  shows "\<exists>w'. Tcp_Write caller w m = Inr w' \<and> serving caller w' \<and> w_in w' = w_in w \<and> cw_loop w' = cw_loop w \<and>
    (\<exists>bs. cw_wire w' = cw_wire w @ bs) \<and> cw_wire w' @ w_unsent w' = cw_wire w @ w_unsent w @ m"
proof -
  have w: "conn_ok w" "w_status w = kConnecting" "healthy w" "IsInThread caller (cw_loop w)"
    using assms(1) by (simp_all add: serving_def)
  have "Tcp_Write caller w m = WriteInThread m w"
    using w by (auto simp: Tcp_Write_def conn_ok_def)
  moreover obtain w' where w': "WriteInThread m w = Inr w'" "conn_ok w'" "same_rest w w'" "cw_loop w' = cw_loop w"
    "\<exists>bs. cw_wire w' = cw_wire w @ bs" "cw_wire w' @ w_unsent w' = cw_wire w @ w_unsent w @ m"
    using WriteInThread_ok [OF w(1) assms(2)] healthy_accepts [OF w(1-3)] by auto
  moreover have "serving caller w'"
    using WriteInThread_keeps [OF w(1-3) w'(1)] assms(1) w' by (simp add: serving_def same_rest_def)
  ultimately show ?thesis by (auto simp: same_rest_def)
qed

lemma put_all_serving:
  "serving caller w \<Longrightarrow> length (w_unsent w) + length (concat out) < 2147483648 \<Longrightarrow>
   \<exists>w'. put_all (Tcp_Write caller) w out = Inr w' \<and> serving caller w' \<and> w_in w' = w_in w \<and> cw_loop w' = cw_loop w \<and>
     (\<exists>bs. cw_wire w' = cw_wire w @ bs) \<and> cw_wire w' @ w_unsent w' = cw_wire w @ w_unsent w @ concat out"
proof (induction out arbitrary: w)
  case (Cons m out)
  obtain w1 bs where w1: "Tcp_Write caller w m = Inr w1" "serving caller w1" "w_in w1 = w_in w" "cw_wire w1 = cw_wire w @ bs"
    "cw_wire w1 @ w_unsent w1 = cw_wire w @ w_unsent w @ m"
    and l1: "cw_loop w1 = cw_loop w"
    using Tcp_Write_serving [OF Cons.prems(1), of m] Cons.prems(2) by auto
  have "length (w_unsent w1) + length (concat out) < 2147483648"
    using stream_step [OF w1(5,4)] Cons.prems(2) by simp
  from Cons.IH [OF w1(2) this] obtain w2 bs2 where w2: "put_all (Tcp_Write caller) w1 out = Inr w2" "serving caller w2"
    "w_in w2 = w_in w1" "cw_wire w2 @ w_unsent w2 = cw_wire w1 @ w_unsent w1 @ concat out" "cw_wire w2 = cw_wire w1 @ bs2" "cw_loop w2 = cw_loop w1" by blast
  have "cw_wire w2 @ w_unsent w2 = (cw_wire w1 @ w_unsent w1) @ concat out" using w2(4) by simp
  also have "\<dots> = cw_wire w @ w_unsent w @ concat (m # out)" unfolding w1(5) by simp
  finally show ?case using w1 w2 l1 by simp
qed simp

lemma refresh_keeps: "wheel_inv wh \<Longrightarrow> \<exists>wh'. refresh ob wh = Inr wh' \<and> wheel_inv wh'"
  using wd.touch_alive [where n = "length (slots wh)" and s = wh and ob = ob]
    wd.touch_dead [where n = "length (slots wh)" and s = wh and ob = ob] by blast

lemma beat_serving:
  assumes "serving caller w"
  shows "\<exists>wh. beat w = Inr (w\<lparr>cw_wheel := wh\<rparr>) \<and> serving caller (w\<lparr>cw_wheel := wh\<rparr>)"
proof -
  have self: "w\<lparr>cw_wheel := cw_wheel w\<rparr> = w" by (cases w) simp
  show ?thesis
  proof (cases "tc_heartbeat (cw_conn w)")
    case None
    with assms self show ?thesis by (intro exI [of _ "cw_wheel w"]) (simp add: beat_def)
  next
    case (Some ob)
    show ?thesis
    proof (cases "cw_wheel w")
      case None
      with Some have "beat w = Inr (w\<lparr>cw_wheel := cw_wheel w\<rparr>)" unfolding self by (simp add: beat_def)
      with assms show ?thesis unfolding self by (metis self)
    next
      case wh: (Some wh)
      with assms have "wheel_inv wh" by (simp add: serving_def)
      from refresh_keeps [OF this, of ob] obtain wh' where "refresh ob wh = Inr wh'" "wheel_inv wh'" by blast
      moreover have "ch_owner (w_channel w) \<noteq> None" using assms by (auto simp: serving_def conn_ok_def)
      ultimately show ?thesis using Some wh assms
        by (intro exI [of _ "Some wh'"]) (auto simp: beat_def serving_def conn_ok_def healthy_def)
    qed
  qed
qed

section \<open>One read\<close>

abbreviation kv_service :: "Host \<Rightarrow> (bytes \<rightharpoonup> bytes) \<Rightarrow> KVService" where
  "kv_service hw m \<equiv> KVService_default hw\<lparr>sv_kvstore := \<lparr>kv_mp = m\<rparr>\<rparr>"

definition small_values :: "(bytes \<rightharpoonup> bytes) \<Rightarrow> bool" where
  "small_values m \<longleftrightarrow> (\<forall>v \<in> ran m. length v \<le> 1048576)"

lemma Tcp_Close_serving:
  assumes "serving caller w"
  shows "conn_ok (Tcp_Close caller w) \<and> cw_wire (Tcp_Close caller w) = cw_wire w \<and> w_unsent (Tcp_Close caller w) = w_unsent w \<and>
    w_in (Tcp_Close caller w) = w_in w \<and> w_status (Tcp_Close caller w) \<noteq> kConnecting"
proof -
  have w: "conn_ok w" "IsInThread caller (cw_loop w)" "\<not> tc_close_requested (cw_conn w)" "ch_owner (w_channel w) \<noteq> None"
    using assms by (auto simp: serving_def conn_ok_def)
  let ?w = "upd_conn (tc_close_requested_update (\<lambda>_. True)) w"
  have "conn_ok ?w" using w(1) by (simp add: conn_ok_def)
  from CloseInThread_ok [OF this] have "w_status (CloseInThread ?w) \<noteq> kConnecting" by blast
  moreover have "Tcp_Close caller w = CloseInThread ?w" using w by (auto simp: Tcp_Close_def Let_def)
  ultimately show ?thesis using Tcp_Close_ok [OF w(1), of caller] by (auto simp: same_rest_def)
qed

lemma play_serving:
  assumes "serving caller w" "length (w_unsent w) + length (concat out) < 2147483648"
  shows "\<exists>w'. play (Tcp_Write caller) (\<lambda>w. Inr (Tcp_Close caller w)) w out closed = Inr w' \<and> conn_ok w' \<and> w_in w' = w_in w \<and>
    (\<exists>bs. cw_wire w' = cw_wire w @ bs) \<and> cw_wire w' @ w_unsent w' = cw_wire w @ w_unsent w @ concat out \<and>
    (if closed then w_status w' \<noteq> kConnecting else serving caller w' \<and> cw_loop w' = cw_loop w)"
proof -
  obtain w1 where w1: "put_all (Tcp_Write caller) w out = Inr w1" "serving caller w1" "w_in w1 = w_in w" "cw_loop w1 = cw_loop w"
    "\<exists>bs. cw_wire w1 = cw_wire w @ bs" "cw_wire w1 @ w_unsent w1 = cw_wire w @ w_unsent w @ concat out"
    using put_all_serving [OF assms] by blast
  then show ?thesis
    using Tcp_Close_serving [OF w1(2)] by (cases closed) (auto simp: play_def serving_def)
qed

lemma set_in_ok:
  assumes "conn_ok w" "buf_inv b"
  shows "conn_ok (upd_conn (tc_read_buffer_update (\<lambda>_. b)) w)"
    "serving caller w \<Longrightarrow> serving caller (upd_conn (tc_read_buffer_update (\<lambda>_. b)) w)"
  using assms by (auto simp: conn_ok_def serving_def healthy_def)

lemma kv_read:
  assumes "serving caller w" "small_values m" "bs \<noteq> []" "length bs \<le> 65536"
    "length (buf_content (w_in w)) + length bs < 2147483648"
    "serve default_verdict m (buf_content (w_in w) @ bs) = (m', out, closed, rest)"
    "length (w_unsent w) + length (concat out) < 2147483648"
  shows "\<exists>w'. Tcp_Read caller (kv_onmsg hw caller) (RdBytes bs e) (kv_service hw m, w) = Some (Inr (kv_service hw m', w')) \<and>
    conn_ok w' \<and> buf_content (w_in w') = rest \<and> (\<exists>bs. cw_wire w' = cw_wire w @ bs) \<and>
    cw_wire w' @ w_unsent w' = cw_wire w @ w_unsent w @ concat out \<and>
    (if closed then w_status w' \<noteq> kConnecting else serving caller w' \<and> cw_loop w' = cw_loop w)"
proof -
  have w: "conn_ok w" "w_status w = kConnecting" "tc_shared (cw_conn w)" "buf_inv (w_in w)"
    using assms(1) by (auto simp: serving_def conn_ok_def)
  obtain b where b: "ReadFd (w_in w) (RdBytes bs e) = Inr (int (length bs), None, b)" "buf_inv b"
    "buf_content b = buf_content (w_in w) @ bs"
    using ReadFd_ok [OF w(4) assms(3) _ assms(5)] assms(4) by auto
  let ?w1 = "upd_conn (tc_read_buffer_update (\<lambda>_. b)) w"
  have "serving caller ?w1" using set_in_ok(2) [OF w(1) b(2) assms(1)] .
  from beat_serving [OF this] obtain wh where beat: "beat ?w1 = Inr (?w1\<lparr>cw_wheel := wh\<rparr>)"
    and sv: "serving caller (?w1\<lparr>cw_wheel := wh\<rparr>)" by blast
  let ?w = "?w1\<lparr>cw_wheel := wh\<rparr>"
  obtain w2 where w2: "play (Tcp_Write caller) (\<lambda>w. Inr (Tcp_Close caller w)) ?w out closed = Inr w2" "conn_ok w2"
    "\<exists>bs. cw_wire w2 = cw_wire w @ bs" "cw_wire w2 @ w_unsent w2 = cw_wire w @ w_unsent w @ concat out"
    "if closed then w_status w2 \<noteq> kConnecting else serving caller w2 \<and> cw_loop w2 = cw_loop w"
    using play_serving [OF sv, of out closed] assms(7) by auto
  have "store_ok \<lparr>kv_mp = m\<rparr>" "serve default_verdict (kv_mp \<lparr>kv_mp = m\<rparr>) (buf_content b) = (m', out, closed, rest)"
    using assms(2,6) b(3) by (simp_all add: store_ok_def small_values_def)
  from default_serves [OF this(1) b(2) this(2), of hw "Tcp_Write caller" "\<lambda>w. Inr (Tcp_Close caller w)" ?w] w2(1)
  obtain b' where b': "on_message hw (Tcp_Write caller) (\<lambda>w. Inr (Tcp_Close caller w)) (kv_service hw m, ?w, b) =
      Some (Inr (kv_service hw m', w2, b'))" "buf_inv b'" "buf_content b' = rest" by auto
  let ?w' = "upd_conn (tc_read_buffer_update (\<lambda>_. b')) w2"
  have "Tcp_Read caller (kv_onmsg hw caller) (RdBytes bs e) (kv_service hw m, w) = Some (Inr (kv_service hw m', ?w'))"
    using w b(1) assms(3) beat b'(1) by (simp add: Tcp_Read_def kv_onmsg_def Let_def)
  with w2 b' set_in_ok [OF w2(2) b'(2)] show ?thesis by (intro exI [of _ ?w']) (auto split: if_splits)
qed

section \<open>Segmentation\<close>

text \<open>Verdicts that do not change when more bytes arrive; waiting may end.\<close>

locale stable_hooks = service_hooks +
  assumes reject_stable: "24 \<le> length c \<Longrightarrow> vf c = Reject \<Longrightarrow> vf (c @ d) = Reject"
    and take_stable: "24 \<le> length c \<Longrightarrow> vf c = Take p n \<Longrightarrow> 24 + n \<le> length c \<and> vf (c @ d) = Take p n"
begin

lemma serve_append:
  "serve vf m c = (m1, out1, closed, rest) \<Longrightarrow>
   serve vf m (c @ d) = (if closed then (m1, out1, True, rest @ d)
     else let (m2, out2, closed2, rest2) = serve vf m1 (rest @ d) in (m2, out1 @ out2, closed2, rest2))"
proof (induction "length c" arbitrary: m c out1 rule: less_induct)
  case less
  show ?case
  proof (cases "length c < 24 \<or> vf c = Wait")
    case True
    with less.prems show ?thesis by (cases "length c < 24") (auto split: prod.splits)
  next
    case False
    then have len: "24 \<le> length c" "vf c \<noteq> Wait" by auto
    show ?thesis
    proof (cases "vf c")
      case Reject
      with less.prems len reject_stable [of c d] show ?thesis by auto
    next
      case (Take p n)
      with take_stable [OF len(1), of p n d] have st: "24 + n \<le> length c" "vf (c @ d) = Take p n" by auto
      let ?m = "fst (spec_execute m p)"
      obtain out' where out: "out1 = packet_wire (reply_packet m p) # out'"
        and rec: "serve vf ?m (drop (24 + n) c) = (m1, out', closed, rest)"
        using less.prems len Take by (auto split: prod.splits)
      have "length (drop (24 + n) c) < length c" using len by simp
      from less.hyps [OF this rec] st len Take out show ?thesis by (auto split: prod.splits)
    qed (use len in simp)
  qed
qed

lemma serve_rest: "serve vf m c = (m1, out1, closed, rest) \<Longrightarrow> length rest \<le> length c"
proof (induction "length c" arbitrary: m c out1 rule: less_induct)
  case less
  show ?case
  proof (cases "24 \<le> length c \<and> (\<exists>p n. vf c = Take p n)")
    case True
    then obtain p n where t: "24 \<le> length c" "vf c = Take p n" by blast
    then obtain out' where "serve vf (fst (spec_execute m p)) (drop (24 + n) c) = (m1, out', closed, rest)"
      using less.prems by (auto split: prod.splits)
    moreover have "length (drop (24 + n) c) < length c" using t(1) by simp
    ultimately show ?thesis using less.hyps [of "drop (24 + n) c"] by fastforce
  next
    case False
    with less.prems show ?thesis by (cases "vf c") (auto simp: serve.simps [of vf m c] split: if_splits)
  qed
qed

lemma serve_quiet: "serve vf m c = (m1, out1, False, rest) \<Longrightarrow> serve vf m1 rest = (m1, [], False, rest)"
proof (induction "length c" arbitrary: m c out1 rule: less_induct)
  case less
  show ?case
  proof (cases "24 \<le> length c \<and> (\<exists>p n. vf c = Take p n)")
    case True
    then obtain p n where t: "24 \<le> length c" "vf c = Take p n" by blast
    then obtain out' where "serve vf (fst (spec_execute m p)) (drop (24 + n) c) = (m1, out', False, rest)"
      using less.prems by (auto split: prod.splits)
    moreover have "length (drop (24 + n) c) < length c" using t(1) by simp
    ultimately show ?thesis using less.hyps by blast
  next
    case False
    with less.prems show ?thesis by (cases "vf c") (auto simp: serve.simps [of vf m c] split: if_splits)
  qed
qed

end

lemma default_verdict_append: "24 \<le> length c \<Longrightarrow> default_verdict (c @ d) = default_verdict c"
  using parse_head_take [of "c @ d"] parse_head_take [of c] by (simp add: default_verdict_def)

interpretation ds: stable_hooks "kDefaultHeadCheck hw" "kDefaultShouldGet hw" "kDefaultBodyCheck hw" default_verdict for hw
proof
  fix c d p n
  assume len: "24 \<le> length (c :: bytes)"
  show "default_verdict (c @ d) = Reject" if "default_verdict c = Reject"
    using that len by (simp add: default_verdict_append)
  show "24 + n \<le> length c \<and> default_verdict (c @ d) = Take p n" if "default_verdict c = Take p n"
    using that len by (auto simp: default_verdict_append) (auto simp: default_verdict_def Let_def split: if_splits)
qed

lemma serve_small: "small_values m \<Longrightarrow> serve vf m c = (m', out, closed, rest) \<Longrightarrow> small_values m'"
proof (induction vf m c arbitrary: m' out rule: serve.induct)
  case (1 vf m c)
  show ?case
  proof (cases "24 \<le> length c \<and> (\<exists>p n. vf c = Take p n)")
    case True
    then obtain p n where t: "24 \<le> length c" "vf c = Take p n" by blast
    then obtain out' where "serve vf (fst (spec_execute m p)) (drop (24 + n) c) = (m', out', closed, rest)"
      using 1(3) by (auto split: prod.splits)
    moreover have "small_values (fst (spec_execute m p))"
      using 1(2) by (simp add: small_values_def spec_execute_small)
    ultimately show ?thesis using 1(1) [OF _ t(2)] t by simp
  next
    case False
    with 1(2,3) show ?thesis by (cases "vf c") (auto simp: serve.simps [of vf m c] split: if_splits)
  qed
qed

lemma kv_reads_serve:
  "serving caller w \<Longrightarrow> small_values m \<Longrightarrow> \<forall>bs \<in> set bss. bs \<noteq> [] \<and> length bs \<le> 65536 \<Longrightarrow>
   length (buf_content (w_in w)) + length (concat bss) < 2147483648 \<Longrightarrow>
   serve default_verdict m (buf_content (w_in w)) = (m, [], False, buf_content (w_in w)) \<Longrightarrow>
   serve default_verdict m (buf_content (w_in w) @ concat bss) = (m', out, False, rest) \<Longrightarrow>
   length (w_unsent w) + length (concat out) < 2147483648 \<Longrightarrow>
   \<exists>w'. kv_reads hw caller bss (kv_service hw m, w) = Some (Inr (kv_service hw m', w')) \<and> serving caller w' \<and>
     buf_content (w_in w') = rest \<and> cw_wire w' @ w_unsent w' = cw_wire w @ w_unsent w @ concat out"
proof (induction bss arbitrary: w m out)
  case Nil
  then show ?case by auto
next
  case (Cons bs bss)
  let ?c = "buf_content (w_in w)"
  obtain m1 out1 cl rest1 where s1: "serve default_verdict m (?c @ bs) = (m1, out1, cl, rest1)"
    by (metis prod_cases4)
  from ds.serve_append [OF s1, of "concat bss"] Cons.prems(6) obtain out2 where
    cl: "cl = False" and s2: "serve default_verdict m1 (rest1 @ concat bss) = (m', out2, False, rest)" "out = out1 @ out2"
    by (auto split: if_splits prod.splits)
  have room: "length bs \<le> 65536" "bs \<noteq> []" "length ?c + length bs < 2147483648"
    "length (w_unsent w) + length (concat out1) < 2147483648"
    using Cons.prems s2(2) by auto
  obtain w1 ws where w1: "Tcp_Read caller (kv_onmsg hw caller) (RdBytes bs 0) (kv_service hw m, w) = Some (Inr (kv_service hw m1, w1))"
    "buf_content (w_in w1) = rest1" "cw_wire w1 = cw_wire w @ ws" "serving caller w1"
    "cw_wire w1 @ w_unsent w1 = cw_wire w @ w_unsent w @ concat out1"
    using kv_read [OF Cons.prems(1,2) room(2,1,3) s1 room(4), where hw = hw and e = 0] cl by auto
  have "length (w_unsent w1) + length (concat out2) < 2147483648"
    using stream_step [OF w1(5,3)] Cons.prems(7) s2(2) by simp
  moreover have "length (buf_content (w_in w1)) + length (concat bss) < 2147483648"
    using ds.serve_rest [OF s1] Cons.prems(4) w1(2) by simp
  ultimately obtain w2 where w2: "kv_reads hw caller bss (kv_service hw m1, w1) = Some (Inr (kv_service hw m', w2))"
    "serving caller w2" "buf_content (w_in w2) = rest" "cw_wire w2 @ w_unsent w2 = cw_wire w1 @ w_unsent w1 @ concat out2"
    using Cons.IH [OF w1(4) serve_small [OF Cons.prems(2) s1]] Cons.prems(3) s2(1) w1(2)
      ds.serve_quiet [OF s1 [unfolded cl]] by auto
  have "cw_wire w2 @ w_unsent w2 = (cw_wire w1 @ w_unsent w1) @ concat out2" using w2(4) by simp
  also have "\<dots> = cw_wire w @ w_unsent w @ concat out" unfolding w1(5) s2(2) by simp
  finally show ?case using w1(1) w2 by simp
qed

section \<open>From construction to service\<close>

lemma establish_serving:
  assumes "0 \<le> fd" "fd \<notin> dom (ep_interest ep)" "IsInThread tid loop" "\<forall>e. WrError e \<in> set ws \<longrightarrow> transient e"
    and "case wheel of None \<Rightarrow> True | Some wh \<Rightarrow> wheel_inv wh \<and> wh_objs wh ob = None"
  shows "\<exists>addr w. server_establish nh isheartbeat kv_newconnection RunsIt tid c ob fd peer_addr (ep, loop, wheel, True) tcpst =
      Inr (addr, w, insert c tcpst) \<and> serving tid (w\<lparr>cw_writes := ws\<rparr>) \<and> buf_content (w_in w) = [] \<and> w_unsent w = [] \<and> cw_wire w = []"
proof -
  have "kv_newconnection = Inr" by (simp add: kv_newconnection_def fun_eq_iff)
  with establish_ok [OF assms(1,2,3,5), of nh isheartbeat c peer_addr tcpst] obtain w where
    w: "server_establish nh isheartbeat kv_newconnection RunsIt tid c ob fd peer_addr (ep, loop, wheel, True) tcpst =
        Inr (INetAddress_assign nh peer_addr INetAddress_new, w, insert c tcpst)"
      "conn_ok w" "w_status w = kConnecting" "w_unsent w = []" "cw_wire w = []" "tc_shared (cw_conn w)"
      "\<not> tc_close_requested (cw_conn w)" "cw_loop w = loop" "buf_content (w_in w) = []"
    and wheel: "if isheartbeat \<and> wheel \<noteq> None then \<exists>wh'. cw_wheel w = Some wh' \<and> wheel_inv wh' else cw_wheel w = wheel"
    by (auto split: if_splits)
  have "case cw_wheel w of None \<Rightarrow> True | Some wh \<Rightarrow> wheel_inv wh"
    using wheel assms(5) by (auto split: if_splits option.splits)
  moreover have "conn_ok (w\<lparr>cw_writes := ws\<rparr>)" using w(2) by (simp add: conn_ok_def)
  ultimately have "serving tid (w\<lparr>cw_writes := ws\<rparr>)"
    using w assms(3,4) by (simp add: serving_def healthy_def)
  with w show ?thesis by blast
qed

lemma KVServer_new_eq:
  assumes "se_add_ok env" "tid \<noteq> base" "TcpServer_new env tid base listenaddr timeropt 1024 loops = Inr sw"
  shows "KVServer_new env tid base lps listenaddr num timeropt loops = TcpServer_Start env tid lps (SetSubThreadNum num sw)"
proof -
  have sw: "sw_loops sw = new_loops (se_eventfd env) timeropt {base} loops" "ts_baseloop (sw_server sw) = base"
    "ch_owner (ac_channel (ts_acceptor (sw_server sw))) = Some base"
    "ch_read_callback (ac_channel (ts_acceptor (sw_server sw))) = Some CbAcceptLoop"
    using TcpServer_new_ok [OF assms(1,2), of listenaddr timeropt 1024 loops] assms(3) by auto
  have "Server_SetNewconnectionCallback tid (SetSubThreadNum num sw) = Inr (SetSubThreadNum num sw)"
    using sw assms(2)
    by (simp add: Server_SetNewconnectionCallback_def SetSubThreadNum_def Acceptor_SetNewconnectionCallback_def
        SetReadCallback_def elsewhere_def wait_for_def upd_server_def)
  with assms(3) show ?thesis by (simp add: KVServer_new_def)
qed

end
