(* ===== verification/Loop_Setup.thy ===== *)
theory Loop_Setup
  imports Event_Loop Time_Wheel
begin

text \<open>
  The parts of \<open>adachi::tool::EventLoop\<close> that join the loop with its poller and its timer
  (\<^verbatim>\<open>src/eventloop.cpp\<close>): the constructor, the forwarding of channel operations, and one pass
  of \<open>Loop\<close> over the channels that are ready.
\<close>

section \<open>The constructor\<close>

datatype loop_callback = CbWakeup | CbTimer

record 'm loop_parts =
  lp_loop :: "'m EventLoop"
  lp_epoll :: Epoll
  lp_wakeupchannel :: "loop_callback Channel"
  lp_timer :: "(Timer \<times> loop_callback Channel) option"

text \<open>
  \<open>wakefd\<close> and \<open>timerfd\<close> are what \<open>eventfd\<close> and \<open>timerfd_create\<close> returned; \<open>wc\<close> and \<open>tc\<close> stand for the
  addresses of the two channels; \<open>add_wake\<close> and \<open>add_timer\<close> tell whether the kernel takes the
  registrations.
\<close>

definition EventLoop_construct ::
  "nat \<Rightarrow> nat \<Rightarrow> TimerOpt \<Rightarrow> int \<Rightarrow> int \<Rightarrow> bool \<Rightarrow> nat \<Rightarrow> int \<Rightarrow> bool \<Rightarrow> nat \<Rightarrow> 'm loop_parts res" where
  "EventLoop_construct loop tid timeropt maxevents wakefd add_wake wc timerfd add_timer tc =
     (case Channel_new (Some (Epoll_new loop maxevents)) add_wake wc wakefd of
        (None, _) \<Rightarrow> Inl UB
      | (Some ep, ch) \<Rightarrow>
        let (ep, ch) =
          (if Channel_Fd ch \<ge> 0 then
             (case SetReadCallback True CbWakeup ch of
                Inr _ \<Rightarrow> (ep, ch)
              | Inl ch \<Rightarrow> (case SetActive True wc kRead (ep, ch) of Inr _ \<Rightarrow> (ep, ch) | Inl es \<Rightarrow> es))
           else (ep, ch))
        in if to_heartbeat_num timeropt > 0 then
             rbind (Timer_new ep add_timer tc CbTimer (to_heartbeat_num timeropt) timerfd) (\<lambda>(t, ep, tch).
             Inr \<lparr>lp_loop = EventLoop_new tid wakefd (to_heartbeat_num timeropt), lp_epoll = ep, lp_wakeupchannel = ch,
                  lp_timer = Some (t, tch)\<rparr>)
           else Inr \<lparr>lp_loop = EventLoop_new tid wakefd (to_heartbeat_num timeropt), lp_epoll = ep, lp_wakeupchannel = ch,
                  lp_timer = None\<rparr>)"

definition EventLoop_AddChannel :: "bool \<Rightarrow> nat \<Rightarrow> Epoll \<times> 'cb Channel \<Rightarrow> bool \<times> Epoll \<times> 'cb Channel" where
  "EventLoop_AddChannel add_ok c es = AddChannel add_ok c es"

definition EventLoop_UpdateChannel :: "nat \<Rightarrow> Epoll \<times> 'cb Channel \<Rightarrow> bool \<times> Epoll \<times> 'cb Channel" where
  "EventLoop_UpdateChannel c es = UpdateChannel c es"

definition EventLoop_DeleteChannel :: "Epoll \<times> 'cb Channel \<Rightarrow> bool \<times> Epoll \<times> 'cb Channel" where
  "EventLoop_DeleteChannel es = DeleteChannel es"

section \<open>One pass of the loop\<close>

text \<open>
  What the loop does between two tests of \<open>quit_\<close>: poll for at most as many channels as the poller's list holds, handle
  the ready ones in the order the kernel gave them, then run the missions. A handler is looked
  up when its turn comes, through the pointer that was stored before: if an earlier handler of
  the same pass has destroyed the channel, the call is undefined behaviour. The pass is written for any
  state \<open>'w\<close> of the loop's surroundings: \<open>chans\<close> gives the channels that
  exist in it, \<open>put_chans\<close> stores what polling changed in them, \<open>locked\<close> tells which tied objects are alive, \<open>run\<close> runs a callback,
  \<open>drain\<close> is \<open>DoCrossThreadMission\<close>; the theory \<open>IO_Loop\<close> gives them for a loop with its own channels and a
  connection. The second result tells whether the loop goes on.
\<close>

primrec run_callbacks :: "('cb \<Rightarrow> 'w \<Rightarrow> 'w res option) \<Rightarrow> 'cb option list \<Rightarrow> 'w \<Rightarrow> 'w res option" where
  "run_callbacks run [] w = Some (Inr w)"
| "run_callbacks run (cb # cbs) w =
     robind (case cb of None \<Rightarrow> Some (Inr w) | Some cb \<Rightarrow> run cb w) (run_callbacks run cbs)"

primrec handle_all ::
  "('w \<Rightarrow> nat \<rightharpoonup> 'cb Channel) \<Rightarrow> ('w \<Rightarrow> nat \<Rightarrow> bool) \<Rightarrow> ('cb \<Rightarrow> 'w \<Rightarrow> 'w res option) \<Rightarrow> nat list \<Rightarrow> 'w \<Rightarrow> 'w res option" where
  "handle_all chans locked run [] w = Some (Inr w)"
| "handle_all chans locked run (c # cs) w = (case chans w c of
     None \<Rightarrow> Some (Inl UB)
   | Some ch \<Rightarrow> robind (run_callbacks run (Handle (locked w) ch) w) (handle_all chans locked run cs))"

definition loop_pass ::
  "('w \<Rightarrow> nat \<rightharpoonup> 'cb Channel) \<Rightarrow> ((nat \<rightharpoonup> 'cb Channel) \<Rightarrow> 'w \<Rightarrow> 'w) \<Rightarrow> ('w \<Rightarrow> nat \<Rightarrow> bool) \<Rightarrow> ('cb \<Rightarrow> 'w \<Rightarrow> 'w res option) \<Rightarrow>
   ('w \<Rightarrow> 'w res) \<Rightarrow> Epoll \<Rightarrow> (nat \<times> events) list option \<Rightarrow> int \<Rightarrow> 'w \<Rightarrow> ('w \<times> bool) res option" where
  "loop_pass chans put_chans locked run drain ep ready err w =
     robind (Some (Poll ep (ep_maxevents ep) ready (chans w))) (\<lambda>(siz, cs, chs).
     let w = put_chans chs w in
     if siz < 0 then Some (Inr (w, transient err))
     else robind (handle_all chans locked run (take (nat siz) cs) w) (\<lambda>w.
       Some (rbind (drain w) (\<lambda>w. Inr (w, True)))))"

section \<open>Properties\<close>

lemma Channel_new_registers:
  assumes "add_ok" "fd \<notin> dom (ep_interest ep)"
  shows "Channel_new (Some ep) add_ok c fd =
    (Some (ep\<lparr>ep_interest := (ep_interest ep)(fd \<mapsto> (c, 0))\<rparr>),
     \<lparr>ch_read_callback = None, ch_write_callback = None, ch_error_callback = None, ch_close_callback = None,
      ch_save_life = None, ch_fd = fd, ch_events = 0, ch_active_events = 0, ch_owner = Some (ep_owner ep), ch_tied = False\<rparr>)"
  using assms by (simp add: Channel_new_def AddChannel_def epoll_ctl_add_def)

lemma SetActive_registered:
  assumes "ch_owner ch = Some (ep_owner ep)" "ch_fd ch \<in> dom (ep_interest ep)"
  shows "SetActive True c ev (ep, ch) =
    Inl (ep\<lparr>ep_interest := (ep_interest ep)(ch_fd ch \<mapsto> (c, ev))\<rparr>, ch\<lparr>ch_events := ev\<rparr>)"
  using assms by (simp add: SetActive_def elsewhere_def UpdateChannel_def epoll_ctl_mod_def)

text \<open>
  A new loop is ready to be woken: when the kernel gives it its descriptors, the wake-up
  descriptor is watched for reading and its channel runs the wake-up callback; with a
  heartbeat the timer's descriptor is watched as well and runs the tick callback, over a wheel
  of the configured size, and without one nothing else is registered; no stop is pending and
  the loop takes missions from no other thread than its own directly.
\<close>

theorem EventLoop_construct_ready:
  assumes "0 \<le> wakefd" "0 \<le> timerfd" "wakefd \<noteq> timerfd" "add_wake" "add_timer"
  shows "\<exists>lp :: 'm loop_parts. EventLoop_construct loop tid timeropt maxevents wakefd add_wake wc timerfd add_timer tc = Inr lp \<and>
    ep_interest (lp_epoll lp) = (if to_heartbeat_num timeropt > 0
      then [wakefd \<mapsto> (wc, kRead), timerfd \<mapsto> (tc, kRead)] else [wakefd \<mapsto> (wc, kRead)]) \<and>
    ch_read_callback (lp_wakeupchannel lp) = Some CbWakeup \<and>
    (case lp_timer lp of None \<Rightarrow> to_heartbeat_num timeropt \<le> 0
     | Some (t, tch) \<Rightarrow> 0 < to_heartbeat_num timeropt \<and> ch_read_callback tch = Some CbTimer \<and>
         tm_wheel t = replicate (nat (to_heartbeat_num timeropt)) [] \<and> tm_ptr t = 0) \<and>
    (IsHeartBeat (lp_loop lp) \<longleftrightarrow> 0 < to_heartbeat_num timeropt) \<and> \<not> EventLoop_Status (lp_loop lp) \<and>
    (IsInThread caller (lp_loop lp) \<longleftrightarrow> tid = caller)"
proof -
  have "wakefd \<notin> dom (ep_interest (Epoll_new loop maxevents))" by (simp add: Epoll_new_def)
  note wake = Channel_new_registers [OF assms(4) this, of wc]
  show ?thesis
    using assms
    by (simp add: EventLoop_construct_def wake Channel_Fd_def SetReadCallback_def elsewhere_def SetActive_registered
        Timer_new_def Channel_new_registers Epoll_new_def IsHeartBeat_def EventLoop_new_def EventLoop_Status_def
        IsInThread_def)
qed

theorem EventLoop_construct_ready_witness:
  "\<exists>lp :: nat loop_parts. EventLoop_construct 1 7 (TimerOpt_new 60 (1, 0)) 1024 4 True 0 5 True 1 = Inr lp \<and>
    ep_interest (lp_epoll lp) = (if to_heartbeat_num (TimerOpt_new 60 (1, 0)) > 0
      then [4 \<mapsto> (0, kRead), 5 \<mapsto> (1, kRead)] else [4 \<mapsto> (0, kRead)]) \<and>
    ch_read_callback (lp_wakeupchannel lp) = Some CbWakeup \<and>
    (case lp_timer lp of None \<Rightarrow> to_heartbeat_num (TimerOpt_new 60 (1, 0)) \<le> 0
     | Some (t, tch) \<Rightarrow> 0 < to_heartbeat_num (TimerOpt_new 60 (1, 0)) \<and> ch_read_callback tch = Some CbTimer \<and>
         tm_wheel t = replicate (nat (to_heartbeat_num (TimerOpt_new 60 (1, 0)))) [] \<and> tm_ptr t = 0) \<and>
    (IsHeartBeat (lp_loop lp) \<longleftrightarrow> 0 < to_heartbeat_num (TimerOpt_new 60 (1, 0))) \<and> \<not> EventLoop_Status (lp_loop lp) \<and>
    (IsInThread 7 (lp_loop lp) \<longleftrightarrow> 7 = (7 :: nat))"
  by (rule EventLoop_construct_ready) simp_all

end
