(* ===== verification/IO_Loop.thy ===== *)
theory IO_Loop
  imports KV_Endpoint Loop_Setup
begin

text \<open>
  A pass of \<open>EventLoop::Loop\<close> on an io loop: \<open>loop_pass\<close> with the channels that such a loop has, the wake-up channel
  and, with a heartbeat, the timer's channel, and with the channel of a connection; every callback is the one the
  constructors install.
\<close>

section \<open>The channels and callbacks of an io loop\<close>

datatype io_callback = IoLoop loop_callback | IoTcp tcp_callback

definition lift_channel :: "('a \<Rightarrow> 'b) \<Rightarrow> 'a Channel \<Rightarrow> 'b Channel" where
  "lift_channel f ch = \<lparr>ch_read_callback = map_option f (ch_read_callback ch), ch_write_callback = map_option f (ch_write_callback ch),
     ch_error_callback = map_option f (ch_error_callback ch), ch_close_callback = map_option f (ch_close_callback ch),
     ch_save_life = ch_save_life ch, ch_fd = ch_fd ch, ch_events = ch_events ch, ch_active_events = ch_active_events ch,
     ch_owner = ch_owner ch, ch_tied = ch_tied ch\<rparr>"

lemma Handle_lift: "Handle locked (lift_channel f ch) = map (map_option f) (Handle locked ch)"
  by (simp add: Handle_def lift_channel_def)

text \<open>
  The loop with one connection: the application's state \<open>io_app\<close>, the connection with its poller, mission queue and wheel, and
  the loop's own channels.
\<close>

record 'x io_world =
  io_app :: 'x
  io_conn :: ConnWorld
  io_wake :: "loop_callback Channel"
  io_timer :: "loop_callback Channel option"

text \<open>What the kernel answers to the reads of the pass: on the connection, on the timer's descriptor, on the wake-up descriptor.\<close>

record io_answers =
  an_read :: rd_result
  an_timer :: rd_result
  an_wake :: bool

text \<open>\<open>wc\<close> and \<open>tc\<close> are the addresses of the loop's own channels.\<close>

definition io_chans :: "nat \<Rightarrow> nat \<Rightarrow> 'x io_world \<Rightarrow> nat \<rightharpoonup> io_callback Channel" where
  "io_chans wc tc W = (case io_timer W of None \<Rightarrow> Map.empty | Some ch \<Rightarrow> [tc \<mapsto> lift_channel IoLoop ch])
     (cw_id (io_conn W) \<mapsto> lift_channel IoTcp (w_channel (io_conn W)), wc \<mapsto> lift_channel IoLoop (io_wake W))"

definition polled :: "'a Channel option \<Rightarrow> 'b Channel \<Rightarrow> 'b Channel" where
  "polled p ch = (case p of None \<Rightarrow> ch | Some q \<Rightarrow> SetActiveEvents (ch_active_events q) ch)"

definition io_put_chans :: "nat \<Rightarrow> nat \<Rightarrow> (nat \<rightharpoonup> io_callback Channel) \<Rightarrow> 'x io_world \<Rightarrow> 'x io_world" where
  "io_put_chans wc tc chs W = W\<lparr>io_conn := upd_conn (tc_channel_update (polled (chs (cw_id (io_conn W))))) (io_conn W),
     io_wake := polled (chs wc) (io_wake W), io_timer := map_option (polled (chs tc)) (io_timer W)\<rparr>"

text \<open>The connection is the object its channel is tied to.\<close>

definition io_locked :: "'x io_world \<Rightarrow> nat \<Rightarrow> bool" where
  "io_locked W ob \<longleftrightarrow> ob = cw_id (io_conn W) \<and> tc_shared (cw_conn (io_conn W))"

text \<open>
  The callbacks. The ticks of the wheel close a connection through the destructor of its heartbeat object; \<open>wh_closed\<close>
  records the connections so closed.
\<close>

definition io_tick :: "nat \<Rightarrow> bool \<Rightarrow> rd_result \<Rightarrow> ConnWorld \<Rightarrow> ConnWorld res" where
  "io_tick caller big rv w = (case cw_wheel w of
     None \<Rightarrow> Inl UB
   | Some wh \<Rightarrow> rbind (Timer_read_callback big rv wh) (\<lambda>wh'.
       let w = w\<lparr>cw_wheel := Some wh'\<rparr>
       in Inr (if cw_id w \<in> set (drop (length (wh_closed wh)) (wh_closed wh')) then Tcp_Close caller w else w)))"

definition io_run :: "nat \<Rightarrow> 'x on_msg \<Rightarrow> bool \<Rightarrow> io_answers \<Rightarrow> io_callback \<Rightarrow> 'x io_world \<Rightarrow> 'x io_world res option" where
  "io_run caller onmsg big an cb W = (case cb of
     IoLoop CbWakeup \<Rightarrow>
       Some (Inr (W\<lparr>io_conn := (io_conn W)\<lparr>cw_loop := wakeup_callback (an_wake an) (cw_loop (io_conn W))\<rparr>\<rparr>))
   | IoLoop CbTimer \<Rightarrow> Some (rbind (io_tick caller big (an_timer an) (io_conn W)) (\<lambda>w. Inr (W\<lparr>io_conn := w\<rparr>)))
   | IoTcp cb \<Rightarrow> robind (run_tcp_callback caller onmsg (an_read an) cb (io_app W, io_conn W)) (\<lambda>(x, w).
       Some (Inr (W\<lparr>io_app := x, io_conn := w\<rparr>))))"

definition io_drain :: "'x io_world \<Rightarrow> 'x io_world res" where
  "io_drain W = rbind (do_tcp_missions (io_conn W)) (\<lambda>w. Inr (W\<lparr>io_conn := w\<rparr>))"

definition io_pass ::
  "nat \<Rightarrow> nat \<Rightarrow> nat \<Rightarrow> 'x on_msg \<Rightarrow> bool \<Rightarrow> io_answers \<Rightarrow> (nat \<times> events) list option \<Rightarrow> int \<Rightarrow> 'x io_world \<Rightarrow>
   ('x io_world \<times> bool) res option" where
  "io_pass wc tc caller onmsg big an ready err W =
     loop_pass (io_chans wc tc) (io_put_chans wc tc) io_locked (io_run caller onmsg big an) io_drain
       (cw_epoll (io_conn W)) ready err W"

section \<open>A pass with the wake-up channel and the connection ready\<close>

text \<open>The loop's own channel and the connection's as their constructors and \<open>SaveLifeMechanism\<close> leave them.\<close>

definition io_ok :: "nat \<Rightarrow> 'x io_world \<Rightarrow> bool" where
  "io_ok wc W \<longleftrightarrow> wc \<noteq> cw_id (io_conn W) \<and> 2 \<le> ep_maxevents (cw_epoll (io_conn W)) \<and>
     ch_read_callback (io_wake W) = Some CbWakeup \<and> \<not> ch_tied (io_wake W) \<and> 0 \<le> el_wakefd (cw_loop (io_conn W)) \<and>
     ch_read_callback (w_channel (io_conn W)) = Some CbRead \<and>
     (ch_tied (w_channel (io_conn W)) \<longrightarrow> ch_save_life (w_channel (io_conn W)) = Some (cw_id (io_conn W)))"

lemma read_event [simp]: "has_event kRead kRead" "\<not> has_event kRead kWrite" "\<not> has_event kRead kError" "\<not> has_event kRead kClose"
  by (simp_all add: has_event_def kRead_def kWrite_def kError_def kClose_def)

text \<open>The connection when its callback runs: its events are stored and the wake-up counter is taken.\<close>

definition io_ready :: "ConnWorld \<Rightarrow> ConnWorld" where
  "io_ready w = (upd_conn (tc_channel_update (SetActiveEvents kRead)) w)\<lparr>cw_loop := wakeup_callback True (cw_loop w)\<rparr>"

lemma io_chans_own [simp]:
  "io_chans wc tc W wc = Some (lift_channel IoLoop (io_wake W))"
  "wc \<noteq> cw_id (io_conn W) \<Longrightarrow> io_chans wc tc W (cw_id (io_conn W)) = Some (lift_channel IoTcp (w_channel (io_conn W)))"
  by (simp_all add: io_chans_def split: option.splits)

lemma lift_SetActiveEvents: "SetActiveEvents ev (lift_channel f ch) = lift_channel f (SetActiveEvents ev ch)"
  by (simp add: SetActiveEvents_def lift_channel_def)

lemma polled_lift [simp]: "polled (Some (lift_channel f (SetActiveEvents ev q))) ch = SetActiveEvents ev ch"
  by (simp add: polled_def lift_channel_def SetActiveEvents_def)

lemma io_pass_eq:
  assumes "io_ok wc W" "an_wake an"
  shows "\<exists>wk tm. io_pass wc tc caller onmsg big an (Some [(wc, kRead), (cw_id (io_conn W), kRead)]) err W =
    robind (if ch_tied (w_channel (io_conn W)) \<and> \<not> tc_shared (cw_conn (io_conn W)) then Some (Inr (io_app W, io_ready (io_conn W)))
      else Tcp_Read caller onmsg (an_read an) (io_app W, io_ready (io_conn W))) (\<lambda>(x, w).
    Some (rbind (do_tcp_missions w) (\<lambda>w. Inr (\<lparr>io_app = x, io_conn = w, io_wake = wk, io_timer = tm\<rparr>, True))))"
proof -
  define w c where "w = io_conn W" and "c = cw_id w"
  have wc: "wc \<noteq> c" using assms(1) by (simp add: io_ok_def w_def c_def)
  let ?wk = "SetActiveEvents kRead (io_wake W)" and ?ch = "SetActiveEvents kRead (w_channel w)"
  let ?chs = "(io_chans wc tc W)(wc \<mapsto> lift_channel IoLoop ?wk, c \<mapsto> lift_channel IoTcp ?ch)"
  have poll: "Poll (cw_epoll w) (ep_maxevents (cw_epoll w)) (Some [(wc, kRead), (c, kRead)]) (io_chans wc tc W) = Inr (2, [wc, c], ?chs)"
  proof -
    have m: "2 \<le> ep_maxevents (cw_epoll w)" using assms(1) by (simp add: io_ok_def w_def)
    then have "take (nat (ep_maxevents (cw_epoll w))) [(wc, kRead), (c, kRead)] = [(wc, kRead), (c, kRead)]" by simp
    with m wc show ?thesis by (simp add: Poll_def Let_def w_def c_def lift_SetActiveEvents)
  qed
  define W1 where "W1 = io_put_chans wc tc ?chs W"
  have W1: "io_conn W1 = upd_conn (tc_channel_update (SetActiveEvents kRead)) w" "io_wake W1 = ?wk" "io_app W1 = io_app W"
    using wc by (simp_all add: W1_def io_put_chans_def w_def c_def)
  define W2 where "W2 = W1\<lparr>io_conn := io_ready w\<rparr>"
  have W2: "io_conn W2 = io_ready w" "cw_id (io_ready w) = c" "w_channel (io_ready w) = ?ch" "tc_shared (cw_conn (io_ready w)) = tc_shared (cw_conn w)"
    by (simp_all add: W2_def io_ready_def c_def)
  have wake: "run_callbacks (io_run caller onmsg big an) (Handle (io_locked W1) (lift_channel IoLoop ?wk)) W1 = Some (Inr W2)"
    using assms W1 by (simp add: Handle_lift) (simp add: Handle_def io_ok_def SetActiveEvents_def io_run_def W2_def io_ready_def)
  have conn: "run_callbacks (io_run caller onmsg big an) (Handle (io_locked W2) (lift_channel IoTcp ?ch)) W2 =
      robind (if ch_tied (w_channel w) \<and> \<not> tc_shared (cw_conn w) then Some (Inr (io_app W, io_ready w))
        else Tcp_Read caller onmsg (an_read an) (io_app W, io_ready w)) (\<lambda>(x, w). Some (Inr (W2\<lparr>io_app := x, io_conn := w\<rparr>)))"
  proof -
    have W: "io_app W2 = io_app W" "W2\<lparr>io_app := io_app W, io_conn := io_ready w\<rparr> = W2" using W1(3) by (simp_all add: W2_def)
    have h: "Handle (io_locked W2) ?ch = (if ch_tied (w_channel w) \<and> \<not> tc_shared (cw_conn w) then [] else [Some CbRead])"
      using assms(1) W2 by (auto simp: Handle_def SetActiveEvents_def io_ok_def io_locked_def w_def c_def)
    show ?thesis
    proof (cases "ch_tied (w_channel w) \<and> \<not> tc_shared (cw_conn w)")
      case True
      with h W(2) show ?thesis by (simp add: Handle_lift)
    next
      case False
      have nil: "run_callbacks (io_run caller onmsg big an) [] = (\<lambda>w. Some (Inr w))" by (simp add: fun_eq_iff)
      have "Handle (io_locked W2) ?ch = [Some CbRead]" unfolding h using False by (rule if_not_P)
      then have "run_callbacks (io_run caller onmsg big an) (Handle (io_locked W2) (lift_channel IoTcp ?ch)) W2 =
          robind (io_run caller onmsg big an (IoTcp CbRead) W2) (\<lambda>w. Some (Inr w))"
        by (simp add: Handle_lift nil)
      also have "\<dots> = io_run caller onmsg big an (IoTcp CbRead) W2" by (simp add: robind_def split: option.splits sum.splits)
      finally show ?thesis using W(1) W2(1) unfolding if_not_P [OF False] by (simp add: io_run_def run_tcp_callback_def)
    qed
  qed
  have "io_pass wc tc caller onmsg big an (Some [(wc, kRead), (c, kRead)]) err W =
      robind (handle_all (io_chans wc tc) io_locked (io_run caller onmsg big an) [wc, c] W1) (\<lambda>w. Some (rbind (io_drain w) (\<lambda>w. Inr (w, True))))"
    using poll by (simp add: io_pass_def loop_pass_def Let_def flip: w_def W1_def)
  also have "handle_all (io_chans wc tc) io_locked (io_run caller onmsg big an) [wc, c] W1 =
      robind (run_callbacks (io_run caller onmsg big an) (Handle (io_locked W2) (lift_channel IoTcp ?ch)) W2) (\<lambda>w. Some (Inr w))"
  proof -
    have "io_chans wc tc W2 c = Some (lift_channel IoTcp ?ch)"
      using io_chans_own(2) [of wc W2 tc] wc W2 by simp
    moreover have "handle_all (io_chans wc tc) io_locked (io_run caller onmsg big an) [] = (\<lambda>w. Some (Inr w))" by (simp add: fun_eq_iff)
    ultimately show ?thesis using wake W1(2) by (simp del: run_callbacks.simps)
  qed
  finally have "io_pass wc tc caller onmsg big an (Some [(wc, kRead), (c, kRead)]) err W =
      robind (if ch_tied (w_channel w) \<and> \<not> tc_shared (cw_conn w) then Some (Inr (io_app W, io_ready w))
        else Tcp_Read caller onmsg (an_read an) (io_app W, io_ready w)) (\<lambda>(x, w).
      Some (rbind (io_drain (W2\<lparr>io_app := x, io_conn := w\<rparr>)) (\<lambda>w. Inr (w, True))))"
    unfolding conn by (auto simp: robind_def split: option.splits sum.splits prod.splits)
  moreover have "rbind (io_drain (W2\<lparr>io_app := x, io_conn := v\<rparr>)) (\<lambda>w. Inr (w, True)) =
      rbind (do_tcp_missions v) (\<lambda>v. Inr (\<lparr>io_app = x, io_conn = v, io_wake = io_wake W2, io_timer = io_timer W2\<rparr>, True))" for x v
    by (cases "do_tcp_missions v") (simp_all add: io_drain_def)
  ultimately show ?thesis unfolding w_def c_def by (intro exI [of _ "io_wake W2"] exI [of _ "io_timer W2"]) simp
qed

section \<open>What a pass does\<close>

lemma serving_io_ready:
  assumes "serving caller w"
  shows "serving caller (io_ready w)"
  using assms
  by (auto simp: serving_def conn_ok_def io_ready_def SetActiveEvents_def healthy_def IsInThread_def wakeup_callback_def)

lemma io_ready_simps [simp]:
  "w_in (io_ready w) = w_in w" "w_out (io_ready w) = w_out w" "cw_wire (io_ready w) = cw_wire w"
  "el_missions (cw_loop (io_ready w)) = el_missions (cw_loop w)" "tc_shared (cw_conn (io_ready w)) = tc_shared (cw_conn w)"
  by (simp_all add: io_ready_def wakeup_callback_def)

lemma run_writes: "serving caller w \<Longrightarrow> length (w_unsent w) + length (concat ms) < 2147483648 \<Longrightarrow>
   run_tcp_missions (map MWriteInThread ms) w = put_all (Tcp_Write caller) w ms"
proof (induction ms arbitrary: w)
  case (Cons m ms)
  have w: "tc_shared (cw_conn w)" "ch_owner (w_channel w) \<noteq> None" "IsInThread caller (cw_loop w)"
    using Cons.prems(1) by (auto simp: serving_def conn_ok_def)
  obtain w1 bs where w1: "Tcp_Write caller w m = Inr w1" "serving caller w1" "cw_wire w1 = cw_wire w @ bs"
    "cw_wire w1 @ w_unsent w1 = cw_wire w @ w_unsent w @ m"
    using Tcp_Write_serving [OF Cons.prems(1), of m] Cons.prems(2) by auto
  have "length (w_unsent w1) + length (concat ms) < 2147483648"
    using stream_step [OF w1(4,3)] Cons.prems(2) by simp
  moreover have "Tcp_Write caller w m = WriteInThread m w" using w by (auto simp: Tcp_Write_def)
  moreover from this w1(1) have "WriteInThread m w = Inr w1" by simp
  ultimately show ?case using Cons.IH [OF w1(2)] w1(1) w(1) by simp
qed simp

lemma run_missions_gone: "\<not> tc_shared (cw_conn w) \<Longrightarrow> run_tcp_missions ms w = Inr w"
proof (induction ms)
  case (Cons m ms)
  then show ?case by (cases m) simp_all
qed simp

text \<open>
  C15. A pass of an io loop does its work. When \<open>epoll_wait\<close> reports the wake-up descriptor and a connection that can
  serve as readable, and other threads have queued writes on that connection, the pass takes the wake-up counter, has the
  connection read its bytes and answer the requests as the reference \<open>serve\<close> does, then runs the queued writes, in order, and
  goes on; afterwards the queue is empty and the connection serves on. When the channel is tied and its
  connection does not exist any more, none of the connection's callbacks runs and its queued missions do nothing:
  the connection is untouched but for its recorded events.
\<close>

theorem io_pass_serves:
  assumes "io_ok wc W" "an_wake an"
  shows "(serving tid (io_conn W) \<and> small_values m \<and> io_app W = kv_service hw m \<and> an_read an = RdBytes bs e \<and> bs \<noteq> [] \<and> length bs \<le> 65536 \<and>
      length (buf_content (w_in (io_conn W))) + length bs < 2147483648 \<and>
      serve default_verdict m (buf_content (w_in (io_conn W)) @ bs) = (m', out, False, rest) \<and>
      el_missions (cw_loop (io_conn W)) = map MWriteInThread ms \<and>
      length (w_unsent (io_conn W)) + length (concat out) + length (concat ms) < 2147483648 \<longrightarrow>
    (\<exists>W'. io_pass wc tc tid (kv_onmsg hw tid) big an (Some [(wc, kRead), (cw_id (io_conn W), kRead)]) err W = Some (Inr (W', True)) \<and>
      io_app W' = kv_service hw m' \<and> serving tid (io_conn W') \<and> buf_content (w_in (io_conn W')) = rest \<and>
      cw_wire (io_conn W') @ w_unsent (io_conn W') = cw_wire (io_conn W) @ w_unsent (io_conn W) @ concat out @ concat ms \<and>
      el_missions (cw_loop (io_conn W')) = [] \<and> el_wakecount (cw_loop (io_conn W')) = 0)) \<and>
    (ch_tied (w_channel (io_conn W)) \<and> \<not> tc_shared (cw_conn (io_conn W)) \<longrightarrow>
    (\<exists>W'. io_pass wc tc tid (kv_onmsg hw tid) big an (Some [(wc, kRead), (cw_id (io_conn W), kRead)]) err W = Some (Inr (W', True)) \<and>
      io_app W' = io_app W \<and> el_missions (cw_loop (io_conn W')) = [] \<and> el_wakecount (cw_loop (io_conn W')) = 0 \<and>
      cw_wire (io_conn W') = cw_wire (io_conn W) \<and>
      cw_conn (io_conn W') = (cw_conn (io_conn W))\<lparr>tc_channel := SetActiveEvents kRead (w_channel (io_conn W))\<rparr>))"
    (is "(?serves \<longrightarrow> ?A) \<and> (?gone \<longrightarrow> ?B)")
proof (intro conjI impI)
  let ?w = "io_conn W"
  have fd: "0 \<le> el_wakefd (cw_loop ?w)" using assms(1) by (simp add: io_ok_def)
  have count: "el_wakecount (cw_loop (io_ready ?w)) = 0" using fd by (simp add: io_ready_def wakeup_callback_def)
  note pass = io_pass_eq [OF assms, of tc tid "kv_onmsg hw tid" big err]
  {
    assume *: ?serves
    have sv: "serving tid (io_ready ?w)" using * serving_io_ready by blast
    have sh: "\<not> (ch_tied (w_channel ?w) \<and> \<not> tc_shared (cw_conn ?w))" using * by (simp add: serving_def)
    obtain w1 bs1 where w1: "Tcp_Read tid (kv_onmsg hw tid) (an_read an) (io_app W, io_ready ?w) = Some (Inr (kv_service hw m', w1))"
      "buf_content (w_in w1) = rest" "cw_wire w1 = cw_wire ?w @ bs1" "serving tid w1" "cw_loop w1 = cw_loop (io_ready ?w)"
      "cw_wire w1 @ w_unsent w1 = cw_wire ?w @ w_unsent ?w @ concat out"
      using kv_read [OF sv, of m bs m' out False rest hw e] * by auto
    let ?w2 = "w1\<lparr>cw_loop := (cw_loop w1)\<lparr>el_missions := []\<rparr>\<rparr>"
    have sv2: "serving tid ?w2" using w1(4) by (auto simp: serving_def conn_ok_def healthy_def IsInThread_def)
    have len: "length (w_unsent ?w2) + length (concat ms) < 2147483648"
      using stream_step [OF w1(6,3)] * by simp
    obtain w3 where w3: "put_all (Tcp_Write tid) ?w2 ms = Inr w3" "serving tid w3" "w_in w3 = w_in w1" "cw_loop w3 = cw_loop ?w2"
      "cw_wire w3 @ w_unsent w3 = cw_wire w1 @ w_unsent w1 @ concat ms"
      using put_all_serving [OF sv2 len] by auto
    have "do_tcp_missions w1 = Inr w3"
      using run_writes [OF sv2 len] w3(1) w1(5) * by (simp add: do_tcp_missions_def DoCrossThreadMission_def)
    moreover have "cw_wire w3 @ w_unsent w3 = cw_wire ?w @ w_unsent ?w @ concat out @ concat ms"
      using w3(5) w1(6) by (metis append.assoc)
    ultimately show ?A using pass w1 w3 count if_not_P [OF sh] by fastforce
  }
  {
    assume *: ?gone
    let ?w2 = "(io_ready ?w)\<lparr>cw_loop := (cw_loop (io_ready ?w))\<lparr>el_missions := []\<rparr>\<rparr>"
    have "do_tcp_missions (io_ready ?w) = Inr ?w2"
      using * by (simp add: do_tcp_missions_def DoCrossThreadMission_def run_missions_gone)
    moreover have "cw_conn (io_ready ?w) = (cw_conn ?w)\<lparr>tc_channel := SetActiveEvents kRead (w_channel ?w)\<rparr>" by (simp add: io_ready_def)
    ultimately show ?B using pass * count by fastforce
  }
qed

text \<open>A loop whose connection 0 has three bytes to send and for which another thread has queued two more; its wake-up channel is 1.\<close>

abbreviation sample_host :: Host where
  "sample_host \<equiv> \<lparr>host_big = False, host_head = parse_head [], host_word = 9\<rparr>"

definition sample_io :: "KVService io_world" where
  "sample_io = \<lparr>io_app = kv_service sample_host Map.empty,
     io_conn = sample_conn\<lparr>cw_writes := [WrBytes 2], cw_loop := (EventLoop_new 7 3 0)\<lparr>el_missions := [MWriteInThread [4, 5]], el_wakecount := 1\<rparr>\<rparr>,
     io_wake = \<lparr>ch_read_callback = Some CbWakeup, ch_write_callback = None, ch_error_callback = None, ch_close_callback = None,
       ch_save_life = None, ch_fd = 3, ch_events = kRead, ch_active_events = 0, ch_owner = Some 7, ch_tied = False\<rparr>,
     io_timer = None\<rparr>"

lemma sample_io_ok: "io_ok 1 sample_io" "serving 7 (io_conn sample_io)"
  by (simp_all add: sample_io_def io_ok_def sample_conn_def serving_def healthy_def conn_ok_def IsInThread_def EventLoop_new_def)

text \<open>The same loop when the connection is gone and its channel was tied to it.\<close>

definition sample_gone :: "KVService io_world" where
  "sample_gone = sample_io\<lparr>io_conn := upd_conn (\<lambda>c. c\<lparr>tc_shared := False,
     tc_channel := (tc_channel c)\<lparr>ch_tied := True, ch_save_life := Some 0\<rparr>\<rparr>) (io_conn sample_io)\<rparr>"

lemma sample_gone_ok: "io_ok 1 sample_gone" "ch_tied (w_channel (io_conn sample_gone)) \<and> \<not> tc_shared (cw_conn (io_conn sample_gone))"
  using sample_io_ok(1) by (simp_all add: sample_gone_def io_ok_def sample_io_def sample_conn_def)

theorem io_pass_serves_witness:
  "(\<exists>W'. io_pass 1 2 7 (kv_onmsg sample_host 7) False \<lparr>an_read = RdBytes (packet_wire (ping_packet 8) @ [1]) 0, an_timer = RdError EAGAIN, an_wake = True\<rparr>
      (Some [(1, kRead), (0, kRead)]) 0 sample_io = Some (Inr (W', True)) \<and> buf_content (w_in (io_conn W')) = [1] \<and>
      cw_wire (io_conn W') @ w_unsent (io_conn W') = [9] @ [1, 2, 3] @ packet_wire (pong_packet 8) @ [4, 5] \<and>
      el_missions (cw_loop (io_conn W')) = [] \<and> el_wakecount (cw_loop (io_conn W')) = 0) \<and>
   (\<exists>W'. io_pass 1 2 7 (kv_onmsg sample_host 7) False \<lparr>an_read = RdBytes [] 0, an_timer = RdError EAGAIN, an_wake = True\<rparr>
      (Some [(1, kRead), (0, kRead)]) 0 sample_gone = Some (Inr (W', True)) \<and> cw_wire (io_conn W') = [9] \<and> el_missions (cw_loop (io_conn W')) = [])"
proof (rule conjI)
  let ?an = "\<lparr>an_read = RdBytes (packet_wire (ping_packet 8) @ [1]) 0, an_timer = RdError EAGAIN, an_wake = True\<rparr>"
  have len: "length (packet_wire (ping_packet 8)) = 24" "length (packet_wire (pong_packet 8)) < 100"
    by (simp_all add: packet_wire_def ping_packet_def pong_packet_def response_packet_def plain_response_def response_wire_def)
  have id: "cw_id (io_conn sample_io) = 0" "cw_id (io_conn sample_gone) = 0" by (simp_all add: sample_gone_def sample_io_def sample_conn_def)
  have sv: "serve default_verdict Map.empty ([] @ packet_wire (ping_packet 8) @ [1]) = (Map.empty, [packet_wire (pong_packet 8)], False, [1])"
    using serve_pings [of "[1]" Map.empty "[8]"] by simp
  have w: "buf_content (w_in (io_conn sample_io)) = []" "w_unsent (io_conn sample_io) = [1, 2, 3]" "cw_wire (io_conn sample_io) = [9]"
    "io_app sample_io = kv_service sample_host Map.empty" "el_missions (cw_loop (io_conn sample_io)) = map MWriteInThread [[4, 5]]"
    by (simp_all add: sample_io_def sample_conn_def)
  from io_pass_serves [OF sample_io_ok(1), of ?an 7 Map.empty sample_host "packet_wire (ping_packet 8) @ [1]" 0 Map.empty
      "[packet_wire (pong_packet 8)]" "[1]" "[[4, 5]]" 2 False 0] sample_io_ok(2) len sv
  show "\<exists>W'. io_pass 1 2 7 (kv_onmsg sample_host 7) False ?an (Some [(1, kRead), (0, kRead)]) 0 sample_io = Some (Inr (W', True)) \<and>
      buf_content (w_in (io_conn W')) = [1] \<and>
      cw_wire (io_conn W') @ w_unsent (io_conn W') = [9] @ [1, 2, 3] @ packet_wire (pong_packet 8) @ [4, 5] \<and>
      el_missions (cw_loop (io_conn W')) = [] \<and> el_wakecount (cw_loop (io_conn W')) = 0"
    unfolding w id by (fastforce simp: small_values_def)
  have "cw_wire (io_conn sample_gone) = [9]" by (simp add: sample_gone_def w)
  with io_pass_serves [OF sample_gone_ok(1), of "\<lparr>an_read = RdBytes [] 0, an_timer = RdError EAGAIN, an_wake = True\<rparr>" 7 Map.empty sample_host "[]" 0 Map.empty
      "[]" "[]" "[]" 2 False 0] sample_gone_ok(2)
  show "\<exists>W'. io_pass 1 2 7 (kv_onmsg sample_host 7) False \<lparr>an_read = RdBytes [] 0, an_timer = RdError EAGAIN, an_wake = True\<rparr>
      (Some [(1, kRead), (0, kRead)]) 0 sample_gone = Some (Inr (W', True)) \<and> cw_wire (io_conn W') = [9] \<and> el_missions (cw_loop (io_conn W')) = []"
    unfolding id by fastforce
qed

end
