(* ===== verification/Async_Log.thy ===== *)
theory Async_Log
  imports Cxx_Prelude
begin

text \<open>
  The logger (\<^verbatim>\<open>include/logger.h\<close>, \<^verbatim>\<open>src/logger.cpp\<close>): \<open>Logger\<close> builds one line in a fixed
  array, \<open>AsyncLogging\<close> collects the lines of all threads in large buffers that a backend
  thread writes to a file. Both C++ buffers are memory blocks whose writes are checked.
\<close>

section \<open>One log line\<close>

definition kLoggerbuffersize :: nat where "kLoggerbuffersize = 4096"

record Logger =
  lg_buf :: bytes
  lg_used :: nat

definition Logger_Size :: "Logger \<Rightarrow> nat" where
  "Logger_Size lg = lg_used lg"

definition LessSize :: "Logger \<Rightarrow> nat" where
  "LessSize lg = nat (u32 (int kLoggerbuffersize - int (lg_used lg)))"

definition log_sv :: "Logger \<Rightarrow> bytes \<Rightarrow> Logger res" where
  "log_sv lg msg = (let res = LessSize lg in
     if res \<noteq> 0 then
       let loglen = min (length msg) res in
       rbind (mem_put (lg_used lg) (take loglen msg) (lg_buf lg)) (\<lambda>b.
       Inr (lg\<lparr>lg_buf := b, lg_used := lg_used lg + loglen\<rparr>))
     else Inr lg)"

definition log_cstr :: "Logger \<Rightarrow> bytes option \<Rightarrow> Logger res" where
  "log_cstr lg msg = (case msg of
     None \<Rightarrow> log_sv lg [40, 110, 117, 108, 108, 41]
   | Some s \<Rightarrow> log_sv lg s)"

definition log_bool :: "Logger \<Rightarrow> bool \<Rightarrow> Logger res" where
  "log_bool lg b = (if b then log_sv lg [116, 114, 117, 101] else log_sv lg [102, 97, 108, 115, 101])"

text \<open>
  \<open>Format\<close> on the characters \<open>std::to_chars\<close> produces for its argument: they are written if
  they fit, and nothing is advanced otherwise. \<open>decimal\<close> gives them for the integer types.
\<close>

definition Format :: "Logger \<Rightarrow> bytes \<Rightarrow> Logger res" where
  "Format lg chars = (if length chars \<le> kLoggerbuffersize - lg_used lg
     then rbind (mem_put (lg_used lg) chars (lg_buf lg)) (\<lambda>b.
       Inr (lg\<lparr>lg_buf := b, lg_used := lg_used lg + length chars\<rparr>))
     else Inr lg)"

definition decimal :: "int \<Rightarrow> bytes" where
  "decimal i = (if i < 0 then 45 # digits (nat (- i)) else digits (nat i))"

definition bracket :: "(Logger \<Rightarrow> Logger res) \<Rightarrow> Logger \<Rightarrow> Logger res" where
  "bracket put lg = rbind (log_cstr lg (Some [91])) (\<lambda>lg. rbind (put lg) (\<lambda>lg. log_cstr lg (Some [93])))"

text \<open>The constructor, on the indeterminate contents \<open>raw\<close> of the array and the compilation's date and time.\<close>

definition Logger_new ::
  "bytes \<Rightarrow> bytes \<Rightarrow> bytes \<Rightarrow> bytes \<Rightarrow> bytes option \<Rightarrow> int \<Rightarrow> bytes option \<Rightarrow> Logger res" where
  "Logger_new raw date time level file line func =
     rbind (bracket (\<lambda>lg. log_sv lg level) \<lparr>lg_buf = raw, lg_used = 0\<rparr>) (\<lambda>lg.
     rbind (bracket (\<lambda>lg. log_cstr lg (Some date)) lg) (\<lambda>lg.
     rbind (bracket (\<lambda>lg. log_cstr lg (Some time)) lg) (\<lambda>lg.
     rbind (bracket (\<lambda>lg. log_cstr lg file) lg) (\<lambda>lg.
     rbind (bracket (\<lambda>lg. Format lg (decimal line)) lg) (\<lambda>lg.
     bracket (\<lambda>lg. log_cstr lg func) lg)))))"

text \<open>The destructor: the bytes it hands to the backend.\<close>

definition Logger_destroy :: "Logger \<Rightarrow> bytes res" where
  "Logger_destroy lg =
     rbind (if LessSize lg > 0
            then rbind (mem_put (lg_used lg) [10] (lg_buf lg)) (\<lambda>b. Inr (lg\<lparr>lg_buf := b, lg_used := lg_used lg + 1\<rparr>))
            else Inr lg) (\<lambda>lg.
     mem_get 0 (lg_used lg) (lg_buf lg))"

definition logger_inv :: "Logger \<Rightarrow> bool" where
  "logger_inv lg \<longleftrightarrow> length (lg_buf lg) = 4096 \<and> lg_used lg \<le> 4096"

definition logger_text :: "Logger \<Rightarrow> bytes" where
  "logger_text lg = take (lg_used lg) (lg_buf lg)"

lemma LessSize_eq: "logger_inv lg \<Longrightarrow> LessSize lg = 4096 - lg_used lg"
  by (simp add: LessSize_def kLoggerbuffersize_def logger_inv_def nat_diff_distrib)

lemma logger_put:
  assumes "logger_inv lg" "lg_used lg + length xs \<le> 4096"
  shows "\<exists>b. mem_put (lg_used lg) xs (lg_buf lg) = Inr b \<and>
    logger_inv (lg\<lparr>lg_buf := b, lg_used := lg_used lg + length xs\<rparr>) \<and>
    logger_text (lg\<lparr>lg_buf := b, lg_used := lg_used lg + length xs\<rparr>) = logger_text lg @ xs"
  using assms by (simp add: logger_inv_def logger_text_def)

lemma length_logger_text: "logger_inv lg \<Longrightarrow> length (logger_text lg) = lg_used lg"
  by (simp add: logger_inv_def logger_text_def)

lemma log_sv_ok:
  assumes "logger_inv lg"
  shows "\<exists>lg'. log_sv lg msg = Inr lg' \<and> logger_inv lg' \<and> logger_text lg' = take 4096 (logger_text lg @ msg)"
proof (cases "lg_used lg = 4096")
  case True
  with assms show ?thesis by (simp add: log_sv_def LessSize_eq length_logger_text)
next
  case False
  define xs where "xs = take (4096 - lg_used lg) msg"
  have len: "lg_used lg + length xs \<le> 4096" "min (length msg) (4096 - lg_used lg) = length xs"
    "take (length xs) msg = xs"
    using assms by (auto simp: xs_def logger_inv_def min_def)
  have whole: "take 4096 (logger_text lg @ msg) = logger_text lg @ xs"
    using assms by (simp add: length_logger_text xs_def) (simp add: logger_text_def logger_inv_def)
  obtain b where b: "mem_put (lg_used lg) xs (lg_buf lg) = Inr b"
    "logger_inv (lg\<lparr>lg_buf := b, lg_used := lg_used lg + length xs\<rparr>)"
    "logger_text (lg\<lparr>lg_buf := b, lg_used := lg_used lg + length xs\<rparr>) = logger_text lg @ xs"
    using logger_put [OF assms len(1)] by blast
  have "LessSize lg \<noteq> 0" using False assms by (simp add: LessSize_eq) (simp add: logger_inv_def)
  then have "log_sv lg msg = Inr (lg\<lparr>lg_buf := b, lg_used := lg_used lg + length xs\<rparr>)"
    using b(1) len(2,3) assms by (simp only: log_sv_def LessSize_eq Let_def if_True rbind_simps) simp
  with b whole show ?thesis by simp
qed

lemma Format_ok:
  assumes "logger_inv lg"
  shows "\<exists>lg'. Format lg chars = Inr lg' \<and> logger_inv lg' \<and>
    logger_text lg' = (if length (logger_text lg) + length chars \<le> 4096 then logger_text lg @ chars else logger_text lg)"
proof (cases "length chars \<le> 4096 - lg_used lg")
  case True
  then have "lg_used lg + length chars \<le> 4096" using assms unfolding logger_inv_def by linarith
  from logger_put [OF assms this] True this assms show ?thesis
    by (auto simp: Format_def kLoggerbuffersize_def length_logger_text)
next
  case False
  with assms show ?thesis by (auto simp: Format_def kLoggerbuffersize_def length_logger_text)
qed

lemma Logger_destroy_ok:
  assumes "logger_inv lg"
  shows "Logger_destroy lg = Inr (take 4096 (logger_text lg @ [10]))"
proof (cases "lg_used lg = 4096")
  case True
  with assms show ?thesis
    by (simp add: Logger_destroy_def LessSize_eq logger_text_def logger_inv_def)
next
  case False
  then have "lg_used lg + length [10 :: byte] \<le> 4096" "LessSize lg > 0"
    using assms by (simp_all add: logger_inv_def LessSize_eq)
  with assms False show ?thesis
    by (simp add: Logger_destroy_def logger_inv_def logger_text_def)
qed

section \<open>The backend's buffers\<close>

definition kBackendbuffersize :: nat where "kBackendbuffersize = 4096 * 1024"
definition kBackendbufferlimit :: nat where "kBackendbufferlimit = 25"

text \<open>
  A buffer is the prefix written so far of a block of \<open>kBackendbuffersize\<close> bytes, its length
  being the one the code keeps beside the pointer; \<open>None\<close> is a null pointer. Of a buffer that
  waits to be used only its existence matters.
\<close>

record AsyncLogging =
  al_running :: bool
  al_current :: "bytes option"
  al_next :: bool
  al_work_list :: "bytes list"
  al_empty_buffers :: nat
  al_wake_requested :: bool

definition AsyncLogging_new :: AsyncLogging where
  "AsyncLogging_new = \<lparr>al_running = True, al_current = Some [], al_next = True, al_work_list = [],
     al_empty_buffers = 0, al_wake_requested = False\<rparr>"

definition TakeBufferLocked :: "AsyncLogging \<Rightarrow> AsyncLogging" where
  "TakeBufferLocked al = (if al_empty_buffers al \<noteq> 0 then al\<lparr>al_empty_buffers := al_empty_buffers al - 1\<rparr> else al)"

definition RecycleBufferLocked :: "AsyncLogging \<Rightarrow> AsyncLogging" where
  "RecycleBufferLocked al = (if al_empty_buffers al < 2 then al\<lparr>al_empty_buffers := al_empty_buffers al + 1\<rparr> else al)"

text \<open>\<open>current_buffer_ = next_buffer_\<close> if there is one, and a buffer taken or allocated otherwise.\<close>

definition fresh_current :: "AsyncLogging \<Rightarrow> AsyncLogging" where
  "fresh_current al = (if al_next al then al\<lparr>al_current := Some [], al_next := False\<rparr>
     else (TakeBufferLocked al)\<lparr>al_current := Some []\<rparr>)"

text \<open>
  \<open>Append\<close>. \<open>reentrant\<close> is the thread's flag \<open>g_async_logging_appending\<close>, under which the text
  goes to the standard error stream. The second result tells whether the text was taken.
\<close>

definition Append :: "bool \<Rightarrow> bytes \<Rightarrow> AsyncLogging \<Rightarrow> (AsyncLogging \<times> bool) res" where
  "Append reentrant buf al =
     (if \<not> al_running al \<or> reentrant then Inr (al, False)
      else
        let al = (if al_current al = None then fresh_current al else al);
            cur = (case al_current al of Some c \<Rightarrow> c | None \<Rightarrow> []);
            full = nat (u32 (int kBackendbuffersize - int (length cur))) < length buf;
            should_drop = (full \<and> length (al_work_list al) \<ge> kBackendbufferlimit);
            al = (if full \<and> \<not> should_drop
                  then fresh_current (al\<lparr>al_work_list := al_work_list al @ [cur], al_current := None\<rparr>) else al);
            cur = (case al_current al of Some c \<Rightarrow> c | None \<Rightarrow> [])
        in rbind (if should_drop then Inr al
                  else if length cur + length buf \<le> kBackendbuffersize
                  then Inr (al\<lparr>al_current := Some (cur @ buf)\<rparr>) else Inl UB) (\<lambda>al.
           let al = (if \<not> al_next al then (TakeBufferLocked al)\<lparr>al_next := True\<rparr> else al);
               al = (if full then al\<lparr>al_wake_requested := True\<rparr> else al)
           in Inr (al, \<not> should_drop)))"

text \<open>The locked section of the backend in which it takes the work over.\<close>

definition collect :: "AsyncLogging \<Rightarrow> AsyncLogging \<times> bytes list" where
  "collect al =
     (let al = al\<lparr>al_wake_requested := False\<rparr>;
          al = (case al_current al of
                  Some c \<Rightarrow> if c \<noteq> [] then fresh_current (al\<lparr>al_work_list := al_work_list al @ [c], al_current := None\<rparr>) else al
                | None \<Rightarrow> al)
      in (al\<lparr>al_work_list := []\<rparr>, al_work_list al))"

text \<open>The locked section after writing: up to two buffers are kept, and a next buffer is provided.\<close>

definition recycle :: "nat \<Rightarrow> AsyncLogging \<Rightarrow> AsyncLogging" where
  "recycle reusable al =
     (let al = (RecycleBufferLocked ^^ min reusable 2) al
      in if \<not> al_next al then (TakeBufferLocked al)\<lparr>al_next := True\<rparr> else al)"

definition stop_running :: "AsyncLogging \<Rightarrow> AsyncLogging" where
  "stop_running al = al\<lparr>al_running := False, al_wake_requested := True\<rparr>"

text \<open>The rest of the destructor, once the backend thread has ended: what it still writes.\<close>

definition final_flush :: "AsyncLogging \<Rightarrow> AsyncLogging \<times> bytes" where
  "final_flush al = (al\<lparr>al_work_list := [], al_current := None, al_next := False, al_empty_buffers := 0\<rparr>,
     concat (al_work_list al) @ (case al_current al of Some c \<Rightarrow> c | None \<Rightarrow> []))"

section \<open>Producers and the backend thread\<close>

text \<open>
  Where the backend thread is: waiting, writing the buffers it has taken, about to recycle
  them, ended; and the destructor after it. \<open>la_taken\<close> are the texts \<open>Append\<close> has taken, in order,
  and \<open>la_fp\<close> tells whether the log file can be opened.
\<close>

datatype backend_pc = BWait | BWrite "bytes list" | BRecycle nat | BExit | BDone

record log_world =
  la_log :: AsyncLogging
  la_pc :: backend_pc
  la_file :: bytes
  la_taken :: "bytes list"
  la_fp :: bool

inductive log_step :: "log_world \<Rightarrow> log_world \<Rightarrow> bool" where
  append: "length buf \<le> kBackendbuffersize \<Longrightarrow> la_pc w \<noteq> BDone \<Longrightarrow> Append reentrant buf (la_log w) = Inr (al, ok) \<Longrightarrow>
     log_step w (w\<lparr>la_log := al, la_taken := la_taken w @ (if ok then [buf] else [])\<rparr>)"
| backend_take: "la_pc w = BWait \<Longrightarrow> collect (la_log w) = (al, work) \<Longrightarrow> al_running al \<or> work \<noteq> [] \<Longrightarrow>
     log_step w (w\<lparr>la_log := al, la_pc := BWrite work\<rparr>)"
| backend_end: "la_pc w = BWait \<Longrightarrow> collect (la_log w) = (al, []) \<Longrightarrow> \<not> al_running al \<Longrightarrow>
     log_step w (w\<lparr>la_log := al, la_pc := BExit\<rparr>)"
| backend_write: "la_pc w = BWrite work \<Longrightarrow>
     log_step w (w\<lparr>la_file := la_file w @ (if la_fp w then concat work else []), la_pc := BRecycle (length work)\<rparr>)"
| backend_recycle: "la_pc w = BRecycle n \<Longrightarrow>
     log_step w (w\<lparr>la_log := recycle n (la_log w), la_pc := BWait\<rparr>)"
| stop: "log_step w (w\<lparr>la_log := stop_running (la_log w)\<rparr>)"
| destroy: "la_pc w = BExit \<Longrightarrow> final_flush (la_log w) = (al, rest) \<Longrightarrow>
     log_step w (w\<lparr>la_log := al, la_file := la_file w @ (if la_fp w then rest else []), la_pc := BDone\<rparr>)"

definition log_init :: "bool \<Rightarrow> log_world" where
  "log_init fp = \<lparr>la_log = AsyncLogging_new, la_pc = BWait, la_file = [], la_taken = [], la_fp = fp\<rparr>"

definition in_flight :: "log_world \<Rightarrow> bytes" where
  "in_flight w = (case la_pc w of BWrite work \<Rightarrow> concat work | _ \<Rightarrow> [])"

definition buffered :: "AsyncLogging \<Rightarrow> bytes" where
  "buffered al = concat (al_work_list al) @ (case al_current al of Some c \<Rightarrow> c | None \<Rightarrow> [])"

definition al_inv :: "AsyncLogging \<Rightarrow> bool" where
  "al_inv al \<longleftrightarrow> length (al_work_list al) \<le> 25 \<and> (\<forall>b \<in> set (al_work_list al). length b \<le> kBackendbuffersize) \<and>
     (\<forall>c. al_current al = Some c \<longrightarrow> length c \<le> kBackendbuffersize) \<and> al_empty_buffers al \<le> 2"

definition log_inv :: "log_world \<Rightarrow> bool" where
  "log_inv w \<longleftrightarrow> (la_fp w \<longrightarrow> la_file w @ in_flight w @ buffered (la_log w) = concat (la_taken w)) \<and> al_inv (la_log w) \<and>
     (la_pc w = BExit \<longrightarrow> \<not> al_running (la_log w)) \<and>
     (la_pc w = BDone \<longrightarrow> buffered (la_log w) = []) \<and>
     (case la_pc w of BWrite work \<Rightarrow> length work \<le> 26 \<and> (\<forall>b \<in> set work. length b \<le> kBackendbuffersize) | _ \<Rightarrow> True)"

lemma TakeBufferLocked_simps [simp]:
  "al_running (TakeBufferLocked al) = al_running al" "al_current (TakeBufferLocked al) = al_current al"
  "al_next (TakeBufferLocked al) = al_next al" "al_work_list (TakeBufferLocked al) = al_work_list al"
  by (simp_all add: TakeBufferLocked_def)

lemma TakeBufferLocked_empty: "al_empty_buffers (TakeBufferLocked al) \<le> al_empty_buffers al"
  by (simp add: TakeBufferLocked_def)

lemma fresh_current_simps [simp]:
  "al_running (fresh_current al) = al_running al" "al_current (fresh_current al) = Some []"
  "al_work_list (fresh_current al) = al_work_list al"
  by (simp_all add: fresh_current_def)

lemma fresh_current_empty: "al_empty_buffers (fresh_current al) \<le> al_empty_buffers al"
  by (simp add: fresh_current_def TakeBufferLocked_def)

lemma al_inv_fresh:
  "al_inv al \<Longrightarrow> al_inv (fresh_current al)"
  using fresh_current_empty [of al] by (simp add: al_inv_def)

lemma al_inv_take: "al_inv al \<Longrightarrow> al_inv (TakeBufferLocked al)"
  using TakeBufferLocked_empty [of al] by (simp add: al_inv_def)

lemma al_inv_flags [simp]:
  "al_inv (al\<lparr>al_next := b\<rparr>) = al_inv al" "al_inv (al\<lparr>al_wake_requested := b\<rparr>) = al_inv al"
  "al_inv (al\<lparr>al_running := b\<rparr>) = al_inv al" "buffered (al\<lparr>al_next := b\<rparr>) = buffered al"
  "buffered (al\<lparr>al_wake_requested := b\<rparr>) = buffered al" "buffered (al\<lparr>al_running := b\<rparr>) = buffered al"
  "buffered (TakeBufferLocked al) = buffered al"
  by (simp_all add: al_inv_def buffered_def)

lemma room: "length (c :: bytes) \<le> kBackendbuffersize \<Longrightarrow>
  nat (u32 (int kBackendbuffersize - int (length c))) = kBackendbuffersize - length c"
  by (simp add: kBackendbuffersize_def nat_diff_distrib)

text \<open>The tail of \<open>Append\<close>: provide a next buffer and request the wake-up.\<close>

definition after_append :: "bool \<Rightarrow> AsyncLogging \<Rightarrow> AsyncLogging" where
  "after_append full al = (let al = (if \<not> al_next al then (TakeBufferLocked al)\<lparr>al_next := True\<rparr> else al)
     in if full then al\<lparr>al_wake_requested := True\<rparr> else al)"

lemma after_append_ok:
  "al_inv al \<Longrightarrow> al_inv (after_append full al)" "buffered (after_append full al) = buffered al"
  "al_running (after_append full al) = al_running al"
  by (simp_all add: after_append_def Let_def al_inv_take)

text \<open>\<open>Append\<close> on a buffer \<open>c\<close>: when it drops, when it fits, and when it starts a new buffer.\<close>

lemma Append_cases:
  assumes "al_running al" "\<not> reentrant" "al_current al = Some c" "length c \<le> kBackendbuffersize" "length buf \<le> kBackendbuffersize"
  shows "Append reentrant buf al =
    (if length c + length buf \<le> kBackendbuffersize
     then Inr (after_append False (al\<lparr>al_current := Some (c @ buf)\<rparr>), True)
     else if 25 \<le> length (al_work_list al) then Inr (after_append True al, False)
     else Inr (after_append True ((fresh_current (al\<lparr>al_work_list := al_work_list al @ [c], al_current := None\<rparr>))\<lparr>al_current := Some buf\<rparr>), True))"
proof -
  have "kBackendbuffersize - length c < length buf \<longleftrightarrow> \<not> length c + length buf \<le> kBackendbuffersize"
    using assms(4) by linarith
  with assms show ?thesis
    by (simp add: Append_def room after_append_def kBackendbufferlimit_def Let_def)
qed

lemma Append_null:
  assumes "al_running al" "\<not> reentrant" "al_current al = None"
  shows "Append reentrant buf al = Append reentrant buf (fresh_current al)"
  using assms by (simp add: Append_def)

lemma Append_some_ok:
  assumes inv: "al_inv al" and run: "al_running al" "\<not> reentrant" "al_current al = Some c" "length buf \<le> kBackendbuffersize"
  shows "\<exists>al' ok. Append reentrant buf al = Inr (al', ok) \<and> al_inv al' \<and> al_running al' \<and>
    buffered al' = buffered al @ (if ok then buf else [])"
proof -
  have c: "length c \<le> kBackendbuffersize" using inv run by (simp add: al_inv_def)
  note app = Append_cases [OF run(1,2,3) c run(4)]
  let ?full = "fresh_current (al\<lparr>al_work_list := al_work_list al @ [c], al_current := None\<rparr>)"
  show ?thesis
  proof (cases "length c + length buf \<le> kBackendbuffersize")
    case True
    then have "al_inv (al\<lparr>al_current := Some (c @ buf)\<rparr>)" using inv by (simp add: al_inv_def)
    with True app run show ?thesis by (simp add: after_append_ok) (auto simp: buffered_def)
  next
    case False
    show ?thesis
    proof (cases "25 \<le> length (al_work_list al)")
      case True
      with False app inv run show ?thesis by (simp add: after_append_ok) blast
    next
      case few: False
      then have "al_inv (?full\<lparr>al_current := Some buf\<rparr>)"
        using inv c run fresh_current_empty [of "al\<lparr>al_work_list := al_work_list al @ [c], al_current := None\<rparr>"]
        by (simp add: al_inv_def)
      with False few app run show ?thesis by (simp add: after_append_ok) (auto simp: buffered_def)
    qed
  qed
qed

lemma Append_ok:
  assumes inv: "al_inv al" and len: "length buf \<le> kBackendbuffersize"
  shows "\<exists>al' ok. Append reentrant buf al = Inr (al', ok) \<and> al_inv al' \<and> al_running al' = al_running al \<and>
    buffered al' = buffered al @ (if ok then buf else []) \<and> (ok \<longrightarrow> al_running al)"
proof (cases "al_running al \<and> \<not> reentrant")
  case False
  with inv show ?thesis by (auto simp: Append_def)
next
  case True
  show ?thesis
  proof (cases "al_current al")
    case None
    have "buffered (fresh_current al) = buffered al" using None by (simp add: buffered_def)
    with None True Append_some_ok [OF al_inv_fresh [OF inv], of reentrant "[]" buf] len show ?thesis
      by (auto simp: Append_null)
  next
    case (Some c)
    from True have "al_running al" "\<not> reentrant" by simp_all
    from Append_some_ok [OF inv this Some len] \<open>al_running al\<close> show ?thesis by metis
  qed
qed

lemma collect_ok:
  assumes "al_inv al" "collect al = (al', work)"
  shows "al_inv al' \<and> al_running al' = al_running al \<and> concat work @ buffered al' = buffered al \<and> length work \<le> 26 \<and>
    (\<forall>b \<in> set work. length b \<le> kBackendbuffersize) \<and> (work = [] \<longrightarrow> buffered al' = [])"
proof -
  let ?push = "\<lambda>c. fresh_current (al\<lparr>al_wake_requested := False, al_work_list := al_work_list al @ [c], al_current := None\<rparr>)"
  have "al_empty_buffers (?push c) \<le> 2" for c
    using assms(1) fresh_current_empty [of "al\<lparr>al_wake_requested := False, al_work_list := al_work_list al @ [c], al_current := None\<rparr>"]
    by (simp add: al_inv_def)
  with assms show ?thesis
    by (auto simp: collect_def al_inv_def buffered_def Let_def split: option.splits if_splits)
qed

lemma recycle_ok: "al_inv al \<Longrightarrow> al_inv (recycle n al) \<and> buffered (recycle n al) = buffered al \<and> al_running (recycle n al) = al_running al"
proof -
  assume inv: "al_inv al"
  have one: "al_inv (RecycleBufferLocked a) \<and> buffered (RecycleBufferLocked a) = buffered a \<and>
      al_running (RecycleBufferLocked a) = al_running a" if "al_inv a" for a
    using that by (simp add: RecycleBufferLocked_def al_inv_def buffered_def)
  have "al_inv ((RecycleBufferLocked ^^ k) al) \<and> buffered ((RecycleBufferLocked ^^ k) al) = buffered al \<and>
      al_running ((RecycleBufferLocked ^^ k) al) = al_running al" for k
    by (induction k) (use inv one in auto)
  then show ?thesis by (simp add: recycle_def Let_def al_inv_take)
qed

lemma log_inv_init: "log_inv (log_init fp)"
  by (simp add: log_inv_def log_init_def AsyncLogging_new_def in_flight_def buffered_def al_inv_def)

lemma log_inv_step: "log_step w w' \<Longrightarrow> log_inv w \<Longrightarrow> log_inv w'"
proof (induction rule: log_step.induct)
  case (append buf w reentrant al ok)
  then show ?case
    using Append_ok [of "la_log w" buf reentrant] by (auto simp: log_inv_def in_flight_def split: backend_pc.splits)
next
  case (backend_take w al work)
  then show ?case
    using collect_ok [of "la_log w" al work] by (auto simp: log_inv_def in_flight_def)
next
  case (backend_end w al)
  then show ?case
    using collect_ok [of "la_log w" al "[]"] by (auto simp: log_inv_def in_flight_def)
next
  case (backend_recycle w n)
  then show ?case
    using recycle_ok [of "la_log w" n] by (auto simp: log_inv_def in_flight_def)
next
  case (destroy w al rest)
  then show ?case
    by (auto simp: log_inv_def in_flight_def final_flush_def buffered_def al_inv_def)
next
  case (stop w)
  then show ?case by (auto simp: log_inv_def in_flight_def stop_running_def)
qed (auto simp: log_inv_def in_flight_def)

lemma log_inv_reach: "log_step\<^sup>*\<^sup>* (log_init fp) w \<Longrightarrow> log_inv w"
  by (induction rule: rtranclp_induct) (auto intro: log_inv_init log_inv_step)

lemma log_fp_reach: "log_step\<^sup>*\<^sup>* (log_init fp) w \<Longrightarrow> la_fp w = fp"
  by (induction rule: rtranclp_induct) (auto simp: log_init_def elim: log_step.cases)

section \<open>Properties\<close>

text \<open>
  C5. The log loses, repeats and reorders nothing it has taken: under every interleaving of
  logging threads, the backend thread and the shutdown, the bytes in the file followed by the
  buffers the backend is writing and the buffers still waiting are the texts \<open>Append\<close> took,
  in order; and once the logger is destroyed the file holds them all.
\<close>

theorem log_complete:
  assumes "log_step\<^sup>*\<^sup>* (log_init True) w"
  shows "la_file w @ in_flight w @ buffered (la_log w) = concat (la_taken w) \<and>
    (la_pc w = BDone \<longrightarrow> la_file w = concat (la_taken w))"
  using log_inv_reach [OF assms] log_fp_reach [OF assms] by (auto simp: log_inv_def in_flight_def)

theorem log_complete_witness:
  "\<exists>w. la_taken w = [[65, 10]] \<and> la_file w @ in_flight w @ buffered (la_log w) = concat (la_taken w) \<and>
    (la_pc w = BDone \<longrightarrow> la_file w = concat (la_taken w))"
proof -
  obtain al ok where a: "Append False [65, 10] AsyncLogging_new = Inr (al, ok)" "ok"
    by (simp add: Append_cases [of _ _ "[]"] AsyncLogging_new_def kBackendbuffersize_def)
  let ?w = "(log_init True)\<lparr>la_log := al, la_taken := la_taken (log_init True) @ (if ok then [[65, 10]] else [])\<rparr>"
  have "log_step (log_init True) ?w"
    using a by (intro log_step.append) (simp_all add: log_init_def kBackendbuffersize_def)
  then have "log_step\<^sup>*\<^sup>* (log_init True) ?w" by (rule r_into_rtranclp)
  from log_complete [OF this] a(2) show ?thesis
    by (intro exI [of _ ?w]) (simp add: log_init_def)
qed

text \<open>
  C30. The logger's memory is bounded: at most 25 full buffers wait, at most 26 are being
  written, two spare ones are kept, and no buffer ever holds more than its 4 MiB, so that no
  \<open>memcpy\<close> leaves its block as long as no single text is longer than a buffer.
\<close>

theorem log_bounded:
  assumes "log_step\<^sup>*\<^sup>* (log_init fp) w"
  shows "length (al_work_list (la_log w)) \<le> kBackendbufferlimit \<and> al_empty_buffers (la_log w) \<le> 2 \<and>
    length (buffered (la_log w)) \<le> 26 * kBackendbuffersize \<and> length (in_flight w) \<le> 26 * kBackendbuffersize \<and>
    (length buf \<le> kBackendbuffersize \<longrightarrow> (\<exists>r. Append reentrant buf (la_log w) = Inr r))"
proof -
  note inv = log_inv_reach [OF assms]
  have sum: "length (concat bs) \<le> length bs * n" if "\<forall>b \<in> set bs. length b \<le> n" for bs :: "bytes list" and n
    using that by (induction bs) auto
  have al: "al_inv (la_log w)" using inv by (simp add: log_inv_def)
  have "length (concat (al_work_list (la_log w))) \<le> 25 * kBackendbuffersize"
    using sum [of "al_work_list (la_log w)" kBackendbuffersize] al
    by (intro order_trans [OF sum]) (auto simp: al_inv_def)
  then have "length (buffered (la_log w)) \<le> 26 * kBackendbuffersize"
    using al by (auto simp: buffered_def al_inv_def split: option.splits)
  moreover have "length (in_flight w) \<le> 26 * kBackendbuffersize"
  proof (cases "la_pc w")
    case (BWrite work)
    with inv have "length work \<le> 26" "\<forall>b \<in> set work. length b \<le> kBackendbuffersize" by (auto simp: log_inv_def)
    then have "length (concat work) \<le> 26 * kBackendbuffersize" by (intro order_trans [OF sum]) auto
    with BWrite show ?thesis by (simp add: in_flight_def)
  qed (simp_all add: in_flight_def)
  moreover have "\<exists>r. Append reentrant buf (la_log w) = Inr r" if "length buf \<le> kBackendbuffersize"
    using Append_ok [OF al that] by blast
  ultimately show ?thesis using al by (auto simp: al_inv_def kBackendbufferlimit_def)
qed

theorem log_bounded_witness:
  "length (al_work_list (la_log (log_init True))) \<le> kBackendbufferlimit \<and> al_empty_buffers (la_log (log_init True)) \<le> 2 \<and>
    length (buffered (la_log (log_init True))) \<le> 26 * kBackendbuffersize \<and>
    length (in_flight (log_init True)) \<le> 26 * kBackendbuffersize \<and>
    (\<exists>r. Append False [65] (la_log (log_init True)) = Inr r)"
proof -
  have "length [65 :: byte] \<le> kBackendbuffersize" by (simp add: kBackendbuffersize_def)
  with log_bounded [OF rtranclp.rtrancl_refl, of True "[65]" False] show ?thesis by blast
qed

text \<open>
  A log line is its text cut at 4096 bytes: writing to a line never leaves its array, a
  string is appended as far as it fits, and what reaches the backend is the accumulated text
  with a line end, cut at the array's size.
\<close>

theorem log_line_truncates:
  assumes "logger_inv lg"
  shows "\<exists>lg'. log_sv lg msg = Inr lg' \<and> logger_inv lg' \<and>
    Logger_destroy lg' = Inr (take 4096 (take 4096 (logger_text lg @ msg) @ [10]))"
  using log_sv_ok [OF assms, of msg] Logger_destroy_ok by fastforce

theorem log_line_truncates_witness:
  "\<exists>lg'. log_sv \<lparr>lg_buf = replicate 4096 0, lg_used = 4095\<rparr> [65, 66] = Inr lg' \<and> logger_inv lg' \<and>
    Logger_destroy lg' = Inr (take 4096 (take 4096 (logger_text \<lparr>lg_buf = replicate 4096 0, lg_used = 4095\<rparr> @ [65, 66]) @ [10]))"
  by (rule log_line_truncates) (simp add: logger_inv_def)

end
