(* ===== verification/Spec2Isabelle.thy ===== *)
theory Spec2Isabelle
  imports IO_Loop Async_Log
begin

text \<open>
  This development verifies a reactor network library in C++ and the key-value server built on it.

  \<^bold>\<open>The program.\<close> A base thread runs an \<open>EventLoop\<close> whose \<open>Acceptor\<close> takes connections and hands
  each descriptor to one of the io loops of an \<open>EventLoopThreadPool\<close>. On its io loop the descriptor becomes a
  \<open>TcpConnection\<close>: a \<open>Channel\<close> in the loop's \<open>Epoll\<close>, two \<open>Buffer\<close>s, and, with a heartbeat,
  an object in the loop's timing wheel (\<open>Timer\<close>, \<open>HeartBeatObj\<close>). Other threads reach a connection
  only by submitting missions to its loop. \<open>KVServer\<close> installs a message handler that takes packets off the input
  buffer (\<open>ProtocolCodec\<close>), has \<open>KVService\<close> execute them on \<open>KVStore\<close>, and writes the
  responses back. \<open>Logger\<close> and \<open>AsyncLogging\<close> serve all of them.

  \<^bold>\<open>Theories and sources\<close> (files under \<^verbatim>\<open>src/src\<close> and \<^verbatim>\<open>src/include\<close>).
  \<^item> \<open>Cxx_Prelude\<close>: what the code uses of the language: results with errors (\<open>'a res\<close>, \<open>UB\<close> being
    undefined behaviour and \<open>Blocked\<close> a call that never returns), the conversions to 32- and 64-bit integers, checked memory blocks, kernel
    answers, byte orders, decimal text.
  \<^item> \<open>Net_Buffer\<close>: \<^verbatim>\<open>buffer.cpp\<close>. The vector and its two \<open>int\<close> cursors, invariant \<open>buf_inv\<close>, content
    \<open>buf_content\<close>; every operation stays in the block and acts on the content as on a queue
    (locale \<open>byte_queue\<close>, interpreted as \<open>nb\<close>).
  \<^item> \<open>KV_Codec\<close>, \<open>KV_Protocol\<close>: \<^verbatim>\<open>kv/protocolcodec.cpp\<close> and the packet headers. Bytes, packets, requests and
    responses on hosts of either byte order: memory safety, what exactly is accepted, round trips.
  \<^item> \<open>KV_Store\<close>, \<open>KV_Service\<close>: \<^verbatim>\<open>kv/kvstore.cpp\<close>, \<^verbatim>\<open>kv/kvservice.cpp\<close>. The table under interleaved operations
    and the echo handler as a refinement of an abstract table.
  \<^item> \<open>KV_Server\<close>: the message handler of \<^verbatim>\<open>kv/kvserver.cpp\<close> against the reference \<open>serve\<close> (locale
    \<open>service_hooks\<close>, interpreted on the default hooks as \<open>dh\<close>); it always returns.
  \<^item> \<open>Epoll_Channel\<close>: \<^verbatim>\<open>channel.cpp\<close>, \<^verbatim>\<open>epoll.cpp\<close>. Registrations always belong to live channels.
  \<^item> \<open>Event_Loop\<close>: \<^verbatim>\<open>eventloop.cpp\<close>. The loop's thread (\<open>loop_own\<close>) and the threads that submit, wait and stop (\<open>loop_env\<close>) as a step
    relation in which every system call may fail: order of missions, wake-ups, the end of a stopped loop, and
    what becomes of waiting threads. \<open>Loop_Setup\<close>: the constructor and one pass over the ready channels. \<open>IO_Loop\<close>: the pass
    with the real callbacks of an io loop, the wake-up, the timer and a connection.
  \<^item> \<open>Time_Wheel\<close>: \<^verbatim>\<open>timer/timer.cpp\<close>, \<^verbatim>\<open>timer/heartbeatobj.cpp\<close>. The wheel with its shared pointers
    implements a table of remaining ticks (locale \<open>watchdog\<close>, interpreted as \<open>wd\<close>).
  \<^item> \<open>Tcp_Conn\<close>: \<^verbatim>\<open>tcpconnection.cpp\<close>. The record \<open>ConnWorld\<close> is a connection with its loop, poller,
    wheel and the kernel's answers; invariant \<open>conn_ok\<close>; its output is a byte stream.
  \<^item> \<open>Inet_Addr\<close>: \<^verbatim>\<open>inetaddress.cpp\<close>, \<^verbatim>\<open>socket.cpp\<close>. \<open>Net_Acceptor\<close>: \<^verbatim>\<open>acceptor.cpp\<close>. \<open>Thread_Pool\<close>:
    \<^verbatim>\<open>eventloopthread.cpp\<close>, \<^verbatim>\<open>eventloopthreadpool.cpp\<close>: loops are created by their threads, stopped through pointers and
    joined, which blocks unless the loop has been entered and then stopped. \<open>Tcp_Server\<close>: \<^verbatim>\<open>tcpserver.cpp\<close>, from
    \<open>accept4\<close> to an active connection, and the life of a server.
  \<^item> \<open>Async_Log\<close>: \<^verbatim>\<open>logger.cpp\<close>. A line, and the buffers of the backend as a step relation of logging threads, the
    backend thread and the destructor.
  \<^item> \<open>KV_Endpoint\<close> and this theory: the handler on real connections. The locale \<open>stable_hooks\<close> extends
    \<open>service_hooks\<close> (interpreted as \<open>ds\<close>) and gives that the answers do not depend on how the input is cut.

  \<^bold>\<open>Conventions.\<close> A class is a record whose fields carry a prefix; a member function is a definition
  on the record. Addresses of objects and numbers of threads are natural numbers. What the kernel answers is an argument
  (\<open>rd_result\<close>, \<open>wr_result\<close>, \<open>acc_result\<close>, lists of such answers for repeated calls). A function that may call
  itself through a callback gets that callback as an argument. Where a component waits for another loop and that loop's steps are not
  part of its own model, what becomes of the mission is an argument (\<open>loop_fate\<close>: run, left behind by a loop that ends, or
  submitted to a loop that is gone), and which threads have come to \<open>Loop\<close> is a set of loops. The byte order of the host and
  \<open>inet_pton\<close> are parameters (\<open>net_host\<close>); the only hypothesis on \<open>inet_pton\<close>, \<open>pton_documented\<close>, is that it reads back
  the text of \<open>inet_ntop\<close>. Signed and unsigned C++ integers are
  integers with the conversions \<open>i32\<close>, \<open>u32\<close>, \<open>u64\<close> written out, or words. The two handler loops are
  partial functions, \<open>None\<close> being a loop that does not end, and the theorems show that they end;
  no definition uses fuel. Bounds in hypotheses are those of the \<open>int\<close> cursors (fewer than 2^31 bytes in a buffer).

  \<^bold>\<open>What is shown.\<close> Safety (no undefined behaviour), the functional result on every branch, invariants
  under every interleaving that the step relations allow, round trips and refinements, and as error properties
  the places where the code does not do what it means to: the default header check closes
  every connection that sends a request with a body, copied addresses lose the IP, a fatal
  write error leaves a connection unclosed, an early stop of a loop is lost and its thread cannot be joined, a loop that is stopped strands the
  threads waiting for its queued missions, activation forgets pending output, a second close of a server is undefined, and so
  is its destruction while it holds connections; the request decoder takes any status and no extra information.

  \<^bold>\<open>Not modelled.\<close> The text of log messages in the other components and the output to the standard
  error stream; the formatting of floating-point numbers by \<open>std::to_chars\<close>; the application callbacks
  \<open>prework_\<close> and \<open>closecallback_\<close>; data races on plain members, as between the destruction of a
  connection on the base thread and its handling on an io thread; memory exhaustion; the client programs under \<^verbatim>\<open>test\<close>.
\<close>

section \<open>Properties that span components\<close>

text \<open>
  C1. The server answers a client's byte stream, however the network cuts it. A connection that
  the server has just established, with or without a heartbeat, reads the input in any
  non-empty chunks of at most 64 KiB; if the reference \<open>serve\<close> does not close on the whole
  input, then every read succeeds, the table and the unconsumed bytes are those of \<open>serve\<close> on
  the whole input, and the bytes on the wire followed by those still buffered are exactly
  the responses of \<open>serve\<close> in order, for every way in which the kernel splits or postpones writes.
\<close>

theorem kv_session:
  assumes "0 \<le> fd" "fd \<notin> dom (ep_interest ep)" "IsInThread tid loop" "\<forall>e. WrError e \<in> set ws \<longrightarrow> transient e"
    and "case wheel of None \<Rightarrow> True | Some wh \<Rightarrow> wheel_inv wh \<and> wh_objs wh ob = None"
    and "small_values m" "\<forall>bs \<in> set bss. bs \<noteq> [] \<and> length bs \<le> 65536" "length (concat bss) < 2147483648"
    and "serve default_verdict m (concat bss) = (m', out, False, rest)" "length (concat out) < 2147483648"
  shows "\<exists>addr w w'. server_establish nh isheartbeat kv_newconnection RunsIt tid c ob fd peer_addr (ep, loop, wheel, True) tcpst =
      Inr (addr, w, insert c tcpst) \<and>
    kv_reads hw tid bss (kv_service hw m, w\<lparr>cw_writes := ws\<rparr>) = Some (Inr (kv_service hw m', w')) \<and>
    conn_ok w' \<and> w_status w' = kConnecting \<and> buf_content (w_in w') = rest \<and> cw_wire w' @ w_unsent w' = concat out"
proof -
  obtain addr w where est: "server_establish nh isheartbeat kv_newconnection RunsIt tid c ob fd peer_addr (ep, loop, wheel, True) tcpst =
      Inr (addr, w, insert c tcpst)" and w: "serving tid (w\<lparr>cw_writes := ws\<rparr>)" "buf_content (w_in w) = []" "w_unsent w = []" "cw_wire w = []"
    using establish_serving [OF assms(1-5)] by blast
  from kv_reads_serve [OF w(1) assms(6,7), of m' out rest hw] assms(8-10) w obtain w' where
    "kv_reads hw tid bss (kv_service hw m, w\<lparr>cw_writes := ws\<rparr>) = Some (Inr (kv_service hw m', w'))" "serving tid w'"
    "buf_content (w_in w') = rest" "cw_wire w' @ w_unsent w' = concat out"
    by auto
  with est show ?thesis by (auto simp: serving_def)
qed

theorem kv_session_witness:
  "\<exists>addr w w'. server_establish sample_net True kv_newconnection RunsIt 7 2 1 5 sample_addr
      (Epoll_new 7 1024, EventLoop_new 7 3 2, Some sample_wheel, True) {} = Inr (addr, w, insert 2 {}) \<and>
    kv_reads \<lparr>host_big = False, host_head = parse_head [], host_word = 9\<rparr> 7 [packet_wire (ping_packet 8) @ [1], [2, 3]]
      (kv_service \<lparr>host_big = False, host_head = parse_head [], host_word = 9\<rparr> Map.empty, w\<lparr>cw_writes := [WrBytes 5]\<rparr>) =
      Some (Inr (kv_service \<lparr>host_big = False, host_head = parse_head [], host_word = 9\<rparr> Map.empty, w')) \<and>
    conn_ok w' \<and> w_status w' = kConnecting \<and> buf_content (w_in w') = [1, 2, 3] \<and>
    cw_wire w' @ w_unsent w' = concat [packet_wire (pong_packet 8)]"
proof (rule kv_session)
  have len: "length (packet_wire (ping_packet 8)) = 24" "length (packet_wire (pong_packet 8)) < 100"
    by (simp_all add: packet_wire_def ping_packet_def pong_packet_def response_packet_def plain_response_def response_wire_def)
  show "serve default_verdict Map.empty (concat [packet_wire (ping_packet 8) @ [1], [2, 3]]) =
      (Map.empty, [packet_wire (pong_packet 8)], False, [1, 2, 3])"
    using serve_pings [of "[1, 2, 3]" Map.empty "[8]"] by simp
  show "\<forall>bs \<in> set [packet_wire (ping_packet 8) @ [1], [2, 3]]. bs \<noteq> [] \<and> length bs \<le> 65536"
    "length (concat [packet_wire (ping_packet 8) @ [1], [2, 3]]) < 2147483648"
    "length (concat [packet_wire (pong_packet 8)]) < 2147483648"
    using len by auto
qed (auto simp: Epoll_new_def IsInThread_def EventLoop_new_def sample_wheel_inv small_values_def, simp add: sample_wheel_def)

text \<open>
  C27. How a key-value server comes up and goes down. Once constructed it listens with its
  socket watched for reading and its accept loop installed, and its pool runs the requested
  number of existing loops. Destroying it when all its threads have entered their loops tells them to stop, waits for
  them, ends the base loop and all io loops and closes the listening socket once. If a thread has not entered
  its loop when it is told to stop, the destructor waits for ever. And if the server still holds a
  connection whose channel is in one of the io loops, the destructor reaches undefined behaviour: it removes the
  channel from a loop that was destroyed before.
\<close>

theorem KVServer_lifecycle:
  assumes "se_add_ok env" "tid \<noteq> base" "0 \<le> se_socket env" "se_listen env (se_socket env) 1024 = 0"
    "1 \<le> num" "num < 2147483648" "inj_on lps {..<nat num}" "base \<notin> lps ` {..<nat num}"
  shows "\<exists>sw. KVServer_new env tid base lps listenaddr num timeropt loops = Inr sw \<and> server_ready sw \<and>
    IsListening (ts_acceptor (sw_server sw)) \<and>
    ch_read_callback (ac_channel (ts_acceptor (sw_server sw))) = Some CbAcceptLoop \<and>
    ep_interest (sw_ep sw) = [se_socket env \<mapsto> (accept_chan, kRead)] \<and>
    GetAllThread (ts_pool (sw_server sw)) = map lps [0..<nat num] \<and>
    (\<forall>E. KVServer_destroy (run_threads E sw) = (if insert base (lps ` {..<nat num}) \<subseteq> E
      then Inr (enter_loops E loops |` (- insert base (lps ` {..<nat num})), [se_socket env]) else Inl Blocked)) \<and>
    (\<forall>E c. \<forall>lp \<in> lps ` {..<nat num}. insert base (lps ` {..<nat num}) \<subseteq> E \<longrightarrow>
      KVServer_destroy (run_threads E (server_insert c lp sw)) = Inl UB)"
proof -
  obtain sw sw' where new: "TcpServer_new env tid base listenaddr timeropt 1024 loops = Inr sw"
    and sw': "TcpServer_Start env tid lps (SetSubThreadNum num sw) = Inr sw'" "server_ready sw'"
      "IsListening (ts_acceptor (sw_server sw'))" "ch_read_callback (ac_channel (ts_acceptor (sw_server sw'))) = Some CbAcceptLoop"
      "ep_interest (sw_ep sw') = [se_socket env \<mapsto> (accept_chan, kRead)]"
      "GetAllThread (ts_pool (sw_server sw')) = map lps [0..<nat num]"
      "\<forall>E. TcpServer_destroy (run_threads E sw') = (if insert base (lps ` {..<nat num}) \<subseteq> E
        then Inr (enter_loops E loops |` (- insert base (lps ` {..<nat num})), [se_socket env]) else Inl Blocked)"
      "\<forall>E c. \<forall>lp \<in> lps ` {..<nat num}. insert base (lps ` {..<nat num}) \<subseteq> E \<longrightarrow>
        TcpServer_destroy (run_threads E (server_insert c lp sw')) = Inl UB"
    using server_cycle [OF assms] by blast
  with KVServer_new_eq [OF assms(1,2) new] show ?thesis by (simp add: KVServer_destroy_def)
qed

theorem KVServer_lifecycle_witness:
  "\<exists>sw. KVServer_new sample_env 1 9 ((+) 10) INetAddress_new 2 (TimerOpt_new 0 (0, 0)) Map.empty = Inr sw \<and>
    GetAllThread (ts_pool (sw_server sw)) = [10, 11] \<and>
    KVServer_destroy (run_threads {9, 10, 11} sw) = Inr (Map.empty, [3]) \<and>
    KVServer_destroy (run_threads {9, 10} sw) = Inl Blocked \<and>
    KVServer_destroy (run_threads {9, 10, 11} (server_insert 5 10 sw)) = Inl UB"
proof -
  have ls: "(+) 10 ` {..<nat 2} = {10, 11 :: nat}" "map ((+) 10) [0..<nat 2] = [10, 11 :: nat]"
    by (auto simp: numeral_2_eq_2 lessThan_Suc)
  have "\<exists>sw. KVServer_new sample_env 1 9 ((+) 10) INetAddress_new 2 (TimerOpt_new 0 (0, 0)) Map.empty = Inr sw \<and> server_ready sw \<and>
    IsListening (ts_acceptor (sw_server sw)) \<and>
    ch_read_callback (ac_channel (ts_acceptor (sw_server sw))) = Some CbAcceptLoop \<and>
    ep_interest (sw_ep sw) = [se_socket sample_env \<mapsto> (accept_chan, kRead)] \<and>
    GetAllThread (ts_pool (sw_server sw)) = map ((+) 10) [0..<nat 2] \<and>
    (\<forall>E. KVServer_destroy (run_threads E sw) = (if insert 9 ((+) 10 ` {..<nat 2}) \<subseteq> E
      then Inr (enter_loops E Map.empty |` (- insert 9 ((+) 10 ` {..<nat 2})), [se_socket sample_env]) else Inl Blocked)) \<and>
    (\<forall>E c. \<forall>lp \<in> (+) 10 ` {..<nat 2}. insert 9 ((+) 10 ` {..<nat 2}) \<subseteq> E \<longrightarrow>
      KVServer_destroy (run_threads E (server_insert c lp sw)) = Inl UB)"
    by (rule KVServer_lifecycle) (auto simp: sample_env_def)
  moreover have "enter_loops {9, 10, 11} Map.empty = Map.empty" by (auto simp: enter_loops_def)
  ultimately show ?thesis unfolding ls by (auto simp: sample_env_def)
qed

end
